theory Spec2Isabelle
  imports Main
begin

section \<open>Values of the shell\<close>

text \<open>
  The embedding follows \<^verbatim>\<open>src/mongo/shell/replsettest.js\<close>. Exceptions of the shell are
  values of \<open>error\<close>; a function that can throw returns \<open>error + 'a\<close>.
\<close>

datatype error =
    TypeError           \<comment> \<open>a property read on \<^verbatim>\<open>undefined\<close> or \<^verbatim>\<open>null\<close>, a call of a non-function\<close>
  | CommandFailed       \<comment> \<open>\<^verbatim>\<open>assert.commandWorked\<close> on a reply that is not ok, a failed query\<close>
  | AssertionFailed     \<comment> \<open>\<^verbatim>\<open>assert\<close>, \<^verbatim>\<open>assert.eq\<close>\<close>
  | CursorExhausted     \<comment> \<open>\<^verbatim>\<open>next()\<close> on a cursor with no further document\<close>
  | TimedOut            \<comment> \<open>\<^verbatim>\<open>assert.soon\<close> ran out of attempts\<close>
  | InvalidViewDefinition \<comment> \<open>a command failed with the code \<^verbatim>\<open>ErrorCodes.InvalidViewDefinition\<close>\<close>

text \<open>
  A \<^verbatim>\<open>Timestamp\<close> of the shell has the two number fields \<^verbatim>\<open>t\<close> (seconds) and \<^verbatim>\<open>i\<close>
  (ordinal within the second); the source reads them directly
  (\<^verbatim>\<open>masterLatestOpTime.t < ts.t\<close>, \<^verbatim>\<open>currTS.i > largestTS.i\<close>) and through
  \<^verbatim>\<open>getTime()\<close> and \<^verbatim>\<open>getInc()\<close>. The selectors are named after the methods.
\<close>

datatype timestamp = Timestamp (getTime: nat) (getInc: nat)

text \<open>
  The value of a field \<^verbatim>\<open>t\<close>: a \<^verbatim>\<open>NumberLong\<close> object (the term of an operation time
  document) or a plain number (the seconds of a bare \<^verbatim>\<open>Timestamp\<close>). An object is
  always truthy; a number is truthy unless it is \<open>0\<close>.
\<close>

datatype jsnum = NumberLong int | Number nat

fun truthy :: "jsnum \<Rightarrow> bool" where
  "truthy (NumberLong n) = True"
| "truthy (Number n) = (n \<noteq> 0)"

fun valueOf :: "jsnum \<Rightarrow> int" where
  "valueOf (NumberLong n) = n"
| "valueOf (Number n) = int n"

text \<open>
  The operator \<^verbatim>\<open><\<close> on two \<^verbatim>\<open>NumberLong\<close> objects compares them as numbers of the
  language, that is as doubles: each object is converted to the double nearest to its
  64-bit integer. Every integer up to \<open>2^53\<close> in magnitude is a double. From there on the
  doubles are spaced by a power of two, by 2 from \<open>2^53\<close>, by 4 from \<open>2^54\<close> and so on;
  an integer in between is rounded to the nearest of them, and one halfway to the one
  with the even multiple of the spacing.
\<close>

function spacing :: "nat \<Rightarrow> nat" where
  "spacing m = (if m < 2 ^ 53 then 1 else 2 * spacing (m div 2))"
  by pat_completeness auto
termination
  by (relation "measure id") auto

declare spacing.simps [simp del]

definition roundToDouble :: "nat \<Rightarrow> nat" where
  "roundToDouble m =
     (let s = spacing m; q = m div s; r = m mod s in
      if 2 * r < s \<or> (2 * r = s \<and> even q) then q * s else (q + 1) * s)"

definition toNumber :: "int \<Rightarrow> int" where
  "toNumber n =
     (if n < 0 then - int (roundToDouble (nat (- n))) else int (roundToDouble (nat n)))"

text \<open>
  The operand of \<^verbatim>\<open><\<close> as a number: a \<^verbatim>\<open>NumberLong\<close> is converted, a plain number is
  taken as it is.
\<close>

fun numberOf :: "jsnum \<Rightarrow> int" where
  "numberOf (NumberLong n) = toNumber n"
| "numberOf (Number n) = int n"

text \<open>
  Modelled from the spec: the shell helper \<^verbatim>\<open>friendlyEqual\<close> is not part of this file.
  The spec reads \<^verbatim>\<open>!friendlyEqual(x, NumberLong(-1))\<close> as "the term is set (not -1)" and
  \<^verbatim>\<open>!friendlyEqual(x, y)\<close> as "the terms differ": equality of the two numbers.
\<close>

definition friendlyEqual :: "jsnum \<Rightarrow> jsnum \<Rightarrow> bool" where
  "friendlyEqual a b = (valueOf a = valueOf b)"

text \<open>
  An operation time as \<^verbatim>\<open>replSetGetStatus\<close> reports it: a document
  \<^verbatim>\<open>{ts: Timestamp, t: NumberLong}\<close>, or a bare \<^verbatim>\<open>Timestamp\<close> with no term field (the
  legacy replication protocol; \<^verbatim>\<open>_getLastOpTimeTimestamp\<close> handles both shapes).
\<close>

datatype optime = OpTime timestamp int | Bare timestamp

text \<open>The field \<^verbatim>\<open>t\<close> of either shape, and the field \<^verbatim>\<open>ts\<close> (\<open>None\<close> is \<^verbatim>\<open>undefined\<close>).\<close>

fun field_t :: "optime \<Rightarrow> jsnum" where
  "field_t (OpTime x n) = NumberLong n"
| "field_t (Bare x) = Number (getTime x)"

fun field_ts :: "optime \<Rightarrow> timestamp option" where
  "field_ts (OpTime x n) = Some x"
| "field_ts (Bare x) = None"

section \<open>Ordering of operation times\<close>

text \<open>
  \<^verbatim>\<open>
  function _isEarlierTimestamp(ts1, ts2) {
      if (ts1.getTime() == ts2.getTime()) {
          return ts1.getInc() < ts2.getInc();
      }
      return ts1.getTime() < ts2.getTime();
  }
  \<close>
\<close>

definition isEarlierTimestamp :: "timestamp \<Rightarrow> timestamp \<Rightarrow> bool" where
  "isEarlierTimestamp ts1 ts2 =
     (if getTime ts1 = getTime ts2 then getInc ts1 < getInc ts2
      else getTime ts1 < getTime ts2)"

text \<open>
  \<^verbatim>\<open>ot = ot.t ? ot : {ts: ot, t: NumberLong(-1)}\<close>: the value is kept when its field
  \<^verbatim>\<open>t\<close> is truthy, and wrapped with the term \<open>-1\<close> otherwise. The term of a document is
  a \<^verbatim>\<open>NumberLong\<close> object, so a document is always kept; a bare \<^verbatim>\<open>Timestamp\<close> is
  wrapped only when its seconds are \<open>0\<close>.
\<close>

fun ensureTerm :: "optime \<Rightarrow> optime" where
  "ensureTerm (OpTime x n) = OpTime x n"
| "ensureTerm (Bare x) = (if truthy (field_t (Bare x)) then Bare x else OpTime x (- 1))"

text \<open>
  \<^verbatim>\<open>
  function _isEarlierOpTime(ot1, ot2) {
      // Make sure both optimes have a timestamp and a term.
      ot1 = ot1.t ? ot1 : {ts: ot1, t: NumberLong(-1)};
      ot2 = ot2.t ? ot2 : {ts: ot2, t: NumberLong(-1)};
      // If both optimes have a term that's not -1 and one has a lower term, return that optime.
      if (!friendlyEqual(ot1.t, NumberLong(-1)) && !friendlyEqual(ot2.t, NumberLong(-1))) {
          if (!friendlyEqual(ot1.t, ot2.t)) {
              return ot1.t < ot2.t;
          }
      }
      // Otherwise, choose the optime with the lower timestamp.
      return _isEarlierTimestamp(ot1.ts, ot2.ts);
  }
  \<close>
  \<^verbatim>\<open>_isEarlierTimestamp(ot1.ts, ot2.ts)\<close> calls \<^verbatim>\<open>getTime()\<close> on its arguments, which throws
  a TypeError when a field \<^verbatim>\<open>ts\<close> is \<^verbatim>\<open>undefined\<close>.
\<close>

definition isEarlierOpTime :: "optime \<Rightarrow> optime \<Rightarrow> error + bool" where
  "isEarlierOpTime a b =
     (let ot1 = ensureTerm a; ot2 = ensureTerm b in
      if \<not> friendlyEqual (field_t ot1) (NumberLong (- 1))
         \<and> \<not> friendlyEqual (field_t ot2) (NumberLong (- 1))
         \<and> \<not> friendlyEqual (field_t ot1) (field_t ot2)
      then Inr (numberOf (field_t ot1) < numberOf (field_t ot2))
      else (case field_ts ot1 of
              None \<Rightarrow> Inl TypeError
            | Some ts1 \<Rightarrow>
               (case field_ts ot2 of
                  None \<Rightarrow> Inl TypeError
                | Some ts2 \<Rightarrow> Inr (isEarlierTimestamp ts1 ts2))))"

text \<open>
  The comparison of the spec (4.1), induced by the earlier-than predicate: \<open>a\<close> is
  \<open>Earlier\<close> than \<open>b\<close> when the predicate says so, \<open>Later\<close> when \<open>b\<close> is earlier, and \<open>Same\<close>
  when neither is.
\<close>

datatype cmp = Earlier | Same | Later

definition compare :: "optime \<Rightarrow> optime \<Rightarrow> error + cmp" where
  "compare a b =
     (case isEarlierOpTime a b of
        Inl e \<Rightarrow> Inl e
      | Inr True \<Rightarrow> Inr Earlier
      | Inr False \<Rightarrow>
         (case isEarlierOpTime b a of
            Inl e \<Rightarrow> Inl e
          | Inr True \<Rightarrow> Inr Later
          | Inr False \<Rightarrow> Inr Same))"

text \<open>
  Three terms of which one is unset (\<open>-1\<close>) while the other two are set and differ:
  the unset term makes the comparison with either of the others fall back to the
  timestamps, while the two others are compared by their terms.
\<close>

definition unsetAmongDifferent :: "int \<Rightarrow> int \<Rightarrow> int \<Rightarrow> bool" where
  "unsetAmongDifferent l m n =
     ((l = - 1 \<and> m \<noteq> - 1 \<and> n \<noteq> - 1 \<and> m \<noteq> n)
      \<or> (m = - 1 \<and> l \<noteq> - 1 \<and> n \<noteq> - 1 \<and> l \<noteq> n)
      \<or> (n = - 1 \<and> l \<noteq> - 1 \<and> m \<noteq> - 1 \<and> l \<noteq> m))"

text \<open>
  Two terms that the comparison as doubles tells apart whenever both are set and they
  differ.
\<close>

definition toldApart :: "int \<Rightarrow> int \<Rightarrow> bool" where
  "toldApart m n = (m \<noteq> - 1 \<and> n \<noteq> - 1 \<and> m \<noteq> n \<longrightarrow> toNumber m \<noteq> toNumber n)"

section \<open>The default timeout\<close>

text \<open>
  The properties of the \<^verbatim>\<open>ReplSetTest\<close> object are a map from property names to
  values; reading a property that was never assigned gives \<^verbatim>\<open>undefined\<close>.
\<close>

datatype jsvalue = Undefined | Num nat | Function | Object

type_synonym jsobject = "string \<Rightarrow> jsvalue"

text \<open>
  Every property the file assigns on the object (\<^verbatim>\<open>this.x = ...\<close>, \<^verbatim>\<open>self.x = ...\<close>), with
  the kind of value it gets. Only \<^verbatim>\<open>this.kDefaultTimeoutMs = 5 * 60 * 1000\<close> is a number
  the waits could read.
\<close>

definition method_names :: "string list" where
  "method_names =
     [''nodeList'', ''getNodeId'', ''getPort'', ''_addPath'', ''getReplSetConfig'', ''getURL'',
      ''startSet'', ''awaitSecondaryNodes'', ''awaitNodesAgreeOnPrimary'', ''getPrimary'',
      ''awaitNoPrimary'', ''getSecondaries'', ''getSecondary'', ''status'', ''add'', ''remove'',
      ''_setDefaultConfigOptions'', ''initiate'', ''getReplSetConfigFromNode'', ''reInitiate'',
      ''awaitLastOpCommitted'', ''awaitReplication'', ''getHashes'', ''dumpOplog'',
      ''checkReplicatedDataHashes'', ''start'', ''restart'', ''stopMaster'', ''stop'', ''stopSet'',
      ''ensureOplogsMatch'', ''waitForState'', ''waitForMaster'']"

definition field_names :: "string list" where
  "field_names =
     [''liveNodes'', ''name'', ''useHostName'', ''host'', ''oplogSize'', ''useSeedList'',
      ''keyFile'', ''protocolVersion'', ''nodeOptions'', ''ports'', ''nodes'']"

definition ReplSetTest :: jsobject where
  "ReplSetTest p =
     (if p = ''kDefaultTimeoutMs'' then Num (5 * 60 * 1000)
      else if p \<in> set method_names then Function
      else if p \<in> set field_names then Object
      else Undefined)"

text \<open>\<^verbatim>\<open>a || b\<close>: \<open>a\<close> when it is truthy, \<open>b\<close> otherwise.\<close>

fun truthy_value :: "jsvalue \<Rightarrow> bool" where
  "truthy_value Undefined = False"
| "truthy_value (Num n) = (n \<noteq> 0)"
| "truthy_value Function = True"
| "truthy_value Object = True"

definition or_else :: "jsvalue \<Rightarrow> jsvalue \<Rightarrow> jsvalue" where
  "or_else a b = (if truthy_value a then a else b)"

text \<open>
  \<^verbatim>\<open>timeout = timeout || self.kDefaultTimeoutMS;\<close> the first statement on the timeout of
  \<^verbatim>\<open>_waitForIndicator\<close> (behind \<^verbatim>\<open>waitForState\<close> and \<^verbatim>\<open>_waitForHealth\<close>),
  \<^verbatim>\<open>awaitSecondaryNodes\<close>, \<^verbatim>\<open>awaitNodesAgreeOnPrimary\<close>, \<^verbatim>\<open>getPrimary\<close>, \<^verbatim>\<open>awaitNoPrimary\<close>,
  \<^verbatim>\<open>initiate\<close> and \<^verbatim>\<open>awaitReplication\<close>.
\<close>

definition effectiveTimeout :: "jsobject \<Rightarrow> jsvalue \<Rightarrow> jsvalue" where
  "effectiveTimeout self timeout = or_else timeout (self ''kDefaultTimeoutMS'')"

definition waitForIndicator_timeout :: "jsobject \<Rightarrow> jsvalue \<Rightarrow> jsvalue" where
  "waitForIndicator_timeout self timeout = effectiveTimeout self timeout"

definition awaitSecondaryNodes_timeout :: "jsobject \<Rightarrow> jsvalue \<Rightarrow> jsvalue" where
  "awaitSecondaryNodes_timeout self timeout = effectiveTimeout self timeout"

definition awaitNodesAgreeOnPrimary_timeout :: "jsobject \<Rightarrow> jsvalue \<Rightarrow> jsvalue" where
  "awaitNodesAgreeOnPrimary_timeout self timeout = effectiveTimeout self timeout"

definition getPrimary_timeout :: "jsobject \<Rightarrow> jsvalue \<Rightarrow> jsvalue" where
  "getPrimary_timeout self timeout = effectiveTimeout self timeout"

definition awaitNoPrimary_timeout :: "jsobject \<Rightarrow> jsvalue \<Rightarrow> jsvalue" where
  "awaitNoPrimary_timeout self timeout = effectiveTimeout self timeout"

definition awaitReplication_timeout :: "jsobject \<Rightarrow> jsvalue \<Rightarrow> jsvalue" where
  "awaitReplication_timeout self timeout = effectiveTimeout self timeout"

text \<open>
  \<^verbatim>\<open>initiate\<close> defaults its timeout and hands it to \<^verbatim>\<open>awaitSecondaryNodes\<close>, which
  defaults it again.
\<close>

definition initiate_timeout :: "jsobject \<Rightarrow> jsvalue \<Rightarrow> jsvalue" where
  "initiate_timeout self timeout =
     awaitSecondaryNodes_timeout self (effectiveTimeout self timeout)"

section \<open>Finding the primary\<close>

text \<open>
  \<^verbatim>\<open>self.liveNodes = {master: null, slaves: []}\<close>, over the connections \<open>'n\<close> of the set.
\<close>

record 'n liveNodes =
  master :: "'n option"
  slaves :: "'n list"

definition clearLiveNodes :: "'n liveNodes" where
  "clearLiveNodes = \<lparr>master = None, slaves = []\<rparr>"

text \<open>
  The body of the \<^verbatim>\<open>forEach\<close> of \<^verbatim>\<open>_callIsMaster\<close>, on the pair of the flag
  \<^verbatim>\<open>twoPrimaries\<close> and \<^verbatim>\<open>self.liveNodes\<close>. \<open>ismaster node\<close> is the outcome of
  \<^verbatim>\<open>node.getDB('admin').runCommand({ismaster: 1})\<close>: an exception, which the \<^verbatim>\<open>catch\<close>
  only prints, or the value of \<^verbatim>\<open>n.ismaster == true\<close>.
  \<^verbatim>\<open>
  if (n.ismaster == true) {
      if (self.liveNodes.master) { twoPrimaries = true; }
      else { self.liveNodes.master = node; }
  } else {
      node.setSlaveOk();
      self.liveNodes.slaves.push(node);
  }
  \<close>
\<close>

definition visit :: "('n \<Rightarrow> error + bool) \<Rightarrow> 'n \<Rightarrow> bool \<times> 'n liveNodes \<Rightarrow> bool \<times> 'n liveNodes" where
  "visit ismaster node st =
     (case st of (twoPrimaries, live) \<Rightarrow>
        (case ismaster node of
           Inl err \<Rightarrow> (twoPrimaries, live)
         | Inr True \<Rightarrow>
            (case master live of
               Some m \<Rightarrow> (True, live)
             | None \<Rightarrow> (twoPrimaries, live\<lparr>master := Some node\<rparr>))
         | Inr False \<Rightarrow> (twoPrimaries, live\<lparr>slaves := slaves live @ [node]\<rparr>)))"

text \<open>
  \<^verbatim>\<open>
  function _callIsMaster() {
      _clearLiveNodes();
      var twoPrimaries = false;
      self.nodes.forEach(function(node) { ... });
      if (twoPrimaries) { return false; }
      return self.liveNodes.master || false;
  }
  \<close>
  The result is the returned value (\<open>None\<close> is \<^verbatim>\<open>false\<close>) and the new \<^verbatim>\<open>self.liveNodes\<close>.
\<close>

definition callIsMaster :: "('n \<Rightarrow> error + bool) \<Rightarrow> 'n list \<Rightarrow> 'n option \<times> 'n liveNodes" where
  "callIsMaster ismaster nodes =
     (case fold (visit ismaster) nodes (False, clearLiveNodes) of
        (twoPrimaries, live) \<Rightarrow> (if twoPrimaries then None else master live, live))"

section \<open>Matching oplogs\<close>

text \<open>
  Of an oplog entry only the field \<^verbatim>\<open>ts\<close> is read; the oplog of a member is the list
  of these timestamps in natural order, and the set is the list of its members' oplogs.
\<close>

type_synonym oplog = "timestamp list"

text \<open>
  \<^verbatim>\<open>getFirstDoc\<close>: \<^verbatim>\<open>this.getOplogColl().find().sort({$natural: 1}).limit(-1).next()\<close>, and the
  field \<^verbatim>\<open>ts\<close> of the document; \<^verbatim>\<open>next()\<close> throws on an empty oplog.
\<close>

definition getFirstDoc_ts :: "oplog \<Rightarrow> error + timestamp" where
  "getFirstDoc_ts log = (case log of [] \<Rightarrow> Inl CursorExhausted | d # ds \<Rightarrow> Inr d)"

text \<open>
  The first loop of \<^verbatim>\<open>ensureOplogsMatch\<close>, from \<^verbatim>\<open>var largestTS = null\<close>:
  \<^verbatim>\<open>
  for (var i = 0; i < rsSize; i++) {
      readers[i] = new OplogReader(nodes[i]);
      var currTS = readers[i].getFirstDoc().ts;
      if (currTS.t > largestTS.t || (currTS.t == largestTS.t && currTS.i > largestTS.i)) {
          largestTS = currTS;
      }
  }
  \<close>
  \<open>None\<close> is \<^verbatim>\<open>null\<close>; reading \<^verbatim>\<open>largestTS.t\<close> of \<^verbatim>\<open>null\<close> throws a TypeError.
\<close>

fun findLargestTS :: "timestamp option \<Rightarrow> oplog list \<Rightarrow> error + timestamp option" where
  "findLargestTS largestTS [] = Inr largestTS"
| "findLargestTS largestTS (node # nodes) =
     (case getFirstDoc_ts node of
        Inl e \<Rightarrow> Inl e
      | Inr currTS \<Rightarrow>
         (case largestTS of
            None \<Rightarrow> Inl TypeError
          | Some l \<Rightarrow>
             if getTime currTS > getTime l \<or> (getTime currTS = getTime l \<and> getInc currTS > getInc l)
             then findLargestTS (Some currTS) nodes
             else findLargestTS (Some l) nodes))"

text \<open>
  \<^verbatim>\<open>query(ts)\<close>: the cursor over the entries with \<^verbatim>\<open>{ts: {$gte: ts ? ts : new Timestamp()}}\<close>
  in natural order; \<^verbatim>\<open>new Timestamp()\<close> is \<open>(0, 0)\<close>. A cursor is the list of the
  documents it has still to return.
\<close>

definition query :: "timestamp option \<Rightarrow> oplog \<Rightarrow> timestamp list" where
  "query ts log =
     filter (\<lambda>d. \<not> isEarlierTimestamp d (case ts of None \<Rightarrow> Timestamp 0 0 | Some x \<Rightarrow> x)) log"

text \<open>
  One round of the lockstep walk, for the readers after the first:
  \<^verbatim>\<open>assert.eq(ts, readers[i].next().ts, ...)\<close>. \<^verbatim>\<open>next()\<close> throws on a cursor that has
  nothing left.
\<close>

fun nextAll :: "timestamp \<Rightarrow> timestamp list list \<Rightarrow> error + timestamp list list" where
  "nextAll ts [] = Inr []"
| "nextAll ts (cursor # cursors) =
     (case cursor of
        [] \<Rightarrow> Inl CursorExhausted
      | d # rest \<Rightarrow>
         if ts = d
         then (case nextAll ts cursors of Inl e \<Rightarrow> Inl e | Inr cs \<Rightarrow> Inr (rest # cs))
         else Inl AssertionFailed)"

text \<open>
  \<^verbatim>\<open>while (firstReader.hasNext()) { var ts = firstReader.next().ts; for (i = 1; ...) ... }\<close>
\<close>

fun lockstep :: "timestamp list \<Rightarrow> timestamp list list \<Rightarrow> error + timestamp list list" where
  "lockstep [] cursors = Inr cursors"
| "lockstep (ts # rest) cursors =
     (case nextAll ts cursors of Inl e \<Rightarrow> Inl e | Inr cs \<Rightarrow> lockstep rest cs)"

text \<open>
  \<^verbatim>\<open>
  this.ensureOplogsMatch = function() {
      if (this.nodes.length && this.nodes.length > 1) {
          ... largestTS ...
          for (i = 0; i < rsSize; i++) { readers[i].query(largestTS); }
          var firstReader = readers[0];
          while (firstReader.hasNext()) { ... }
          // ensure no other node has more oplog
          for (i = 1; i < rsSize; i++) {
              assert.eq(false, readers[i].hasNext(), ...);
          }
      }
  };
  \<close>
\<close>

definition ensureOplogsMatch :: "oplog list \<Rightarrow> error + unit" where
  "ensureOplogsMatch nodes =
     (if length nodes \<noteq> 0 \<and> length nodes > 1 then
        (case findLargestTS None nodes of
           Inl e \<Rightarrow> Inl e
         | Inr largestTS \<Rightarrow>
            (case map (query largestTS) nodes of
               [] \<Rightarrow> Inr ()
             | firstReader # readers \<Rightarrow>
                (case lockstep firstReader readers of
                   Inl e \<Rightarrow> Inl e
                 | Inr cursors \<Rightarrow>
                    if list_all (\<lambda>c. c = []) cursors then Inr () else Inl AssertionFailed)))
      else Inr ())"

section \<open>Dumping the difference of a collection\<close>

text \<open>
  A document with its \<^verbatim>\<open>_id\<close> and the rest of its content.
\<close>

datatype ('k, 'b) document = Document (doc_id: 'k) (doc_body: 'b)

text \<open>
  Modelled from the spec: \<^verbatim>\<open>bsonBinaryEqual\<close> is a function of the shell that is not
  part of this file. By the spec (4.5) it tells whether the content of two documents
  differs: two documents are equal when they are the same document.
\<close>

definition bsonBinaryEqual :: "('k, 'b) document \<Rightarrow> ('k, 'b) document \<Rightarrow> bool" where
  "bsonBinaryEqual a b = (a = b)"

text \<open>
  Modelled from the spec: \<^verbatim>\<open>bsonWoCompare\<close> is a function of the shell that is not part
  of this file. By the spec (4.5) it tells whether two keys are equal and which one is
  the larger; the source tests its result for \<^verbatim>\<open>=== 0\<close>, \<^verbatim>\<open>< 0\<close> and \<^verbatim>\<open>> 0\<close>. It is applied
  to the \<^verbatim>\<open>_id\<close>s of two documents, each wrapped as \<^verbatim>\<open>{wrapper: _id}\<close>.
\<close>

definition bsonWoCompare :: "'k::linorder \<Rightarrow> 'k \<Rightarrow> int" where
  "bsonWoCompare a b = (if a < b then - 1 else if a = b then 0 else 1)"

text \<open>
  What \<^verbatim>\<open>dumpCollectionDiff\<close> reports: the pairs it prints under
  \<^verbatim>\<open>'Mismatching documents:'\<close>, and the arrays \<^verbatim>\<open>missingOnPrimary\<close> and
  \<^verbatim>\<open>missingOnSecondary\<close>, which it prints at the end. A document stands for its
  rendering by \<^verbatim>\<open>tojsononeline\<close>.
\<close>

record ('k, 'b) divergence =
  mismatching :: "(('k, 'b) document \<times> ('k, 'b) document) list"
  missingOnPrimary :: "('k, 'b) document list"
  missingOnSecondary :: "('k, 'b) document list"

text \<open>
  The loop of \<^verbatim>\<open>dumpCollectionDiff\<close>, on the two indices and the report so far:
  \<^verbatim>\<open>
  while (primaryIndex >= 0 || secondaryIndex >= 0) {
      var primaryDoc = primaryDocs[primaryIndex];
      var secondaryDoc = secondaryDocs[secondaryIndex];
      if (primaryIndex < 0) {
          missingOnPrimary.push(tojsononeline(secondaryDoc));
          secondaryIndex--;
      } else if (secondaryIndex < 0) {
          missingOnSecondary.push(tojsononeline(primaryDoc));
          primaryIndex--;
      } else {
          if (!bsonBinaryEqual(primaryDoc, secondaryDoc)) {
              print('Mismatching documents:');
              print('    primary: ' + tojsononeline(primaryDoc));
              print('    secondary: ' + tojsononeline(secondaryDoc));
              var ordering = bsonWoCompare({wrapper: primaryDoc._id},
                                           {wrapper: secondaryDoc._id});
              if (ordering === 0) {
                  primaryIndex--;
                  secondaryIndex--;
              } else if (ordering < 0) {
                  missingOnPrimary.push(tojsononeline(secondaryDoc));
                  secondaryIndex--;
              } else if (ordering > 0) {
                  missingOnSecondary.push(tojsononeline(primaryDoc));
                  primaryIndex--;
              }
          } else {
              // Latest document matched.
              primaryIndex--;
              secondaryIndex--;
          }
      }
  }
  \<close>
  The indices start at the last element and only decrease, so a document that is used
  is read at an index inside its array.
\<close>

function dumpLoop ::
  "('k::linorder, 'b) document list \<Rightarrow> ('k, 'b) document list \<Rightarrow> int \<Rightarrow> int \<Rightarrow>
   ('k, 'b) divergence \<Rightarrow> ('k, 'b) divergence" where
  "dumpLoop primaryDocs secondaryDocs primaryIndex secondaryIndex out =
     (if primaryIndex \<ge> 0 \<or> secondaryIndex \<ge> 0 then
        (if primaryIndex < 0 then
           dumpLoop primaryDocs secondaryDocs primaryIndex (secondaryIndex - 1)
             (out\<lparr>missingOnPrimary :=
                    missingOnPrimary out @ [secondaryDocs ! nat secondaryIndex]\<rparr>)
         else if secondaryIndex < 0 then
           dumpLoop primaryDocs secondaryDocs (primaryIndex - 1) secondaryIndex
             (out\<lparr>missingOnSecondary :=
                    missingOnSecondary out @ [primaryDocs ! nat primaryIndex]\<rparr>)
         else if \<not> bsonBinaryEqual (primaryDocs ! nat primaryIndex)
                     (secondaryDocs ! nat secondaryIndex) then
           (if bsonWoCompare (doc_id (primaryDocs ! nat primaryIndex))
                 (doc_id (secondaryDocs ! nat secondaryIndex)) = 0 then
              dumpLoop primaryDocs secondaryDocs (primaryIndex - 1) (secondaryIndex - 1)
                (out\<lparr>mismatching := mismatching out @
                   [(primaryDocs ! nat primaryIndex, secondaryDocs ! nat secondaryIndex)]\<rparr>)
            else if bsonWoCompare (doc_id (primaryDocs ! nat primaryIndex))
                 (doc_id (secondaryDocs ! nat secondaryIndex)) < 0 then
              dumpLoop primaryDocs secondaryDocs primaryIndex (secondaryIndex - 1)
                (out\<lparr>mismatching := mismatching out @
                   [(primaryDocs ! nat primaryIndex, secondaryDocs ! nat secondaryIndex)],
                  missingOnPrimary :=
                    missingOnPrimary out @ [secondaryDocs ! nat secondaryIndex]\<rparr>)
            else
              dumpLoop primaryDocs secondaryDocs (primaryIndex - 1) secondaryIndex
                (out\<lparr>mismatching := mismatching out @
                   [(primaryDocs ! nat primaryIndex, secondaryDocs ! nat secondaryIndex)],
                  missingOnSecondary :=
                    missingOnSecondary out @ [primaryDocs ! nat primaryIndex]\<rparr>))
         else
           dumpLoop primaryDocs secondaryDocs (primaryIndex - 1) (secondaryIndex - 1) out)
      else out)"
  by pat_completeness auto
termination
  by (relation "measure (\<lambda>(p, s, i, j, out). nat (i + 1) + nat (j + 1))") auto

declare dumpLoop.simps [simp del]

text \<open>
  \<^verbatim>\<open>
  var primaryDocs = primaryColl.find().sort({_id: 1}).toArray();
  var secondaryDocs = secondaryColl.find().sort({_id: 1}).toArray();
  var primaryIndex = primaryDocs.length - 1;
  var secondaryIndex = secondaryDocs.length - 1;
  var missingOnPrimary = [];
  var missingOnSecondary = [];
  \<close>
  The two collections are given as the lists of their documents, in any order.
\<close>

definition dumpCollectionDiff ::
  "('k::linorder, 'b) document list \<Rightarrow> ('k, 'b) document list \<Rightarrow> ('k, 'b) divergence" where
  "dumpCollectionDiff primaryColl secondaryColl =
     (let primaryDocs = sort_key doc_id primaryColl;
          secondaryDocs = sort_key doc_id secondaryColl
      in dumpLoop primaryDocs secondaryDocs
           (int (length primaryDocs) - 1) (int (length secondaryDocs) - 1)
           \<lparr>mismatching = [], missingOnPrimary = [], missingOnSecondary = []\<rparr>)"

text \<open>
  A description of the walk, to state what the loop does: the three-way merge of the
  spec (4.5) on the two lists of documents as they are walked from the tail, that is
  in descending order of their keys, the current documents being the heads. Equal
  documents advance both sides; equal keys with differing content record the pair as
  mismatching and advance both sides; of two different keys the document with the
  larger key is recorded as missing on the other side and only its side advances; when
  one side is exhausted, the documents left on the other are recorded as missing.
  Other than in the spec, the pair of current documents is recorded as mismatching
  also when their keys differ, as the loop does. That the loop is this merge is lemma
  \<open>dumpCollectionDiff_threeWayMerge\<close>.
\<close>

fun threeWayMerge ::
  "('k::linorder, 'b) document list \<Rightarrow> ('k, 'b) document list \<Rightarrow> ('k, 'b) divergence
     \<Rightarrow> ('k, 'b) divergence" where
  "threeWayMerge [] [] out = out"
| "threeWayMerge [] (s # ss) out =
     threeWayMerge [] ss (out\<lparr>missingOnPrimary := missingOnPrimary out @ [s]\<rparr>)"
| "threeWayMerge (p # ps) [] out =
     threeWayMerge ps [] (out\<lparr>missingOnSecondary := missingOnSecondary out @ [p]\<rparr>)"
| "threeWayMerge (p # ps) (s # ss) out =
     (if p = s then threeWayMerge ps ss out
      else if doc_id p = doc_id s then
        threeWayMerge ps ss (out\<lparr>mismatching := mismatching out @ [(p, s)]\<rparr>)
      else if doc_id p < doc_id s then
        threeWayMerge (p # ps) ss
          (out\<lparr>mismatching := mismatching out @ [(p, s)],
               missingOnPrimary := missingOnPrimary out @ [s]\<rparr>)
      else
        threeWayMerge ps (s # ss)
          (out\<lparr>mismatching := mismatching out @ [(p, s)],
               missingOnSecondary := missingOnSecondary out @ [p]\<rparr>))"

text \<open>
  The document of a collection with the greatest key below the key of \<open>d\<close>.
\<close>

definition nextBelow ::
  "('k::linorder, 'b) document list \<Rightarrow> ('k, 'b) document \<Rightarrow> ('k, 'b) document \<Rightarrow> bool" where
  "nextBelow coll d q =
     (q \<in> set coll \<and> doc_id q < doc_id d
      \<and> (\<forall>x\<in>set coll. doc_id x < doc_id d \<longrightarrow> doc_id x \<le> doc_id q))"

text \<open>
  The pairs of a document of \<open>P\<close> and a document of \<open>S\<close> that differ and have the same
  key, or of which one has a key that the other collection lacks and the other is the
  document of the next smaller key in that collection.
\<close>

definition reported ::
  "('k::linorder, 'b) document list \<Rightarrow> ('k, 'b) document list
     \<Rightarrow> (('k, 'b) document \<times> ('k, 'b) document) set" where
  "reported P S =
     {(p, s). p \<in> set P \<and> s \<in> set S \<and> p \<noteq> s
        \<and> (doc_id p = doc_id s
           \<or> (doc_id s \<notin> doc_id ` set P \<and> nextBelow P s p)
           \<or> (doc_id p \<notin> doc_id ` set S \<and> nextBelow S p s))}"

text \<open>The larger of the two keys of a pair.\<close>

definition pairKey :: "('k::linorder, 'b) document \<times> ('k, 'b) document \<Rightarrow> 'k" where
  "pairKey pr = max (doc_id (fst pr)) (doc_id (snd pr))"

section \<open>Comparing the hashes of the databases\<close>

text \<open>
  The replies the check reads. A \<^verbatim>\<open>dbhash\<close> reply lists a hash for each collection
  (\<^verbatim>\<open>collections\<close>, an object: a list of pairs of a collection name and its hash, in the
  order of \<^verbatim>\<open>Object.keys\<close>) and the hash \<^verbatim>\<open>md5\<close> of the whole database. A \<^verbatim>\<open>collStats\<close>
  reply has the three fields that are compared.
\<close>

record dbhash =
  hash_ok :: bool
  hash_host :: string
  collections :: "(string \<times> string) list"
  md5 :: string

record collstats =
  stats_ok :: bool
  capped :: bool
  nindexes :: nat
  ns :: string

text \<open>An element of \<^verbatim>\<open>getCollectionInfos()\<close>: the name and the rest of the document.\<close>

datatype collinfo = CollInfo (info_name: string) (info_options: string)

text \<open>
  What the check asks a connection about one database: \<^verbatim>\<open>node.host\<close>, whether
  \<^verbatim>\<open>getDB('admin').isMaster('admin').arbiterOnly\<close> is truthy, the reply to
  \<^verbatim>\<open>getDB(dbName).runCommand("dbhash")\<close>,
  \<^verbatim>\<open>getDB(dbName).getCollection(collName).isCapped()\<close>,
  \<^verbatim>\<open>getDB(dbName).getCollectionInfos()\<close>, which can throw, and
  \<^verbatim>\<open>getDB(dbName).runCommand({collStats: collName})\<close>.
\<close>

record conn =
  host :: string
  arbiterOnly :: bool
  runCommand_dbhash :: dbhash
  isCapped :: "string \<Rightarrow> bool"
  getCollectionInfos :: "error + collinfo list"
  collStats :: "string \<Rightarrow> collstats"

text \<open>
  In the functions below the variable \<^verbatim>\<open>success\<close> of the source is passed in and
  returned. The dumps (\<^verbatim>\<open>print\<close>, \<^verbatim>\<open>dumpCollectionDiff\<close>, \<^verbatim>\<open>dumpOplog\<close>) are output only and
  are left out.
  \<^verbatim>\<open>
  nonCappedCollNames.forEach(collName => {
      if (primaryDBHash.collections[collName] !==
          secondaryDBHash.collections[collName]) {
          ...
          success = false;
      }
  });
  \<close>
\<close>

definition compareHashes :: "dbhash \<Rightarrow> dbhash \<Rightarrow> string list \<Rightarrow> bool \<Rightarrow> bool" where
  "compareHashes primaryDBHash secondaryDBHash nonCappedCollNames success =
     fold (\<lambda>collName ok.
             if map_of (collections primaryDBHash) collName
                  \<noteq> map_of (collections secondaryDBHash) collName
             then False else ok)
       nonCappedCollNames success"

text \<open>
  \<^verbatim>\<open>
  secondaryCollInfo.forEach(secondaryInfo => {
      primaryCollInfo.forEach(primaryInfo => {
          if (secondaryInfo.name === primaryInfo.name) {
              if (!bsonBinaryEqual(secondaryInfo, primaryInfo)) {
                  ...
                  success = false;
              }
          }
      });
  });
  \<close>
\<close>

definition compareInfos :: "collinfo list \<Rightarrow> collinfo list \<Rightarrow> bool \<Rightarrow> bool" where
  "compareInfos primaryCollInfo secondaryCollInfo success =
     fold (\<lambda>secondaryInfo.
             fold (\<lambda>primaryInfo ok.
                     if info_name secondaryInfo = info_name primaryInfo
                        \<and> secondaryInfo \<noteq> primaryInfo
                     then False else ok)
               primaryCollInfo)
       secondaryCollInfo success"

text \<open>
  \<^verbatim>\<open>
  primaryCollections.forEach(collName => {
      var primaryCollStats = primary.getDB(dbName).runCommand({collStats: collName});
      assert.commandWorked(primaryCollStats);
      var secondaryCollStats = secondary.getDB(dbName).runCommand({collStats: collName});
      assert.commandWorked(secondaryCollStats);
      if (primaryCollStats.capped !== secondaryCollStats.capped ||
          primaryCollStats.nindexes !== secondaryCollStats.nindexes ||
          primaryCollStats.ns !== secondaryCollStats.ns) {
          ...
          success = false;
      }
  });
  \<close>
\<close>

fun compareStats :: "conn \<Rightarrow> conn \<Rightarrow> string list \<Rightarrow> bool \<Rightarrow> error + bool" where
  "compareStats primary secondary [] success = Inr success"
| "compareStats primary secondary (collName # rest) success =
     (if \<not> stats_ok (collStats primary collName) then Inl CommandFailed
      else if \<not> stats_ok (collStats secondary collName) then Inl CommandFailed
      else compareStats primary secondary rest
             (if capped (collStats primary collName) \<noteq> capped (collStats secondary collName)
                 \<or> nindexes (collStats primary collName)
                      \<noteq> nindexes (collStats secondary collName)
                 \<or> ns (collStats primary collName) \<noteq> ns (collStats secondary collName)
              then False else success))"

text \<open>
  The function given to \<^verbatim>\<open>dbHashes.slaves.forEach\<close>, for one reply of a secondary:
  \<^verbatim>\<open>
  assert.commandWorked(secondaryDBHash);
  var secondary = rst.liveNodes.slaves.find(node => node.host === secondaryDBHash.host);
  assert(secondary, ...);
  var primaryCollections = Object.keys(primaryDBHash.collections);
  var secondaryCollections = Object.keys(secondaryDBHash.collections);
  if (primaryCollections.length !== secondaryCollections.length) {
      ...
      success = false;
  }
  var nonCappedCollNames = primaryCollections.filter(
      collName => !primary.getDB(dbName).getCollection(collName).isCapped());
  // Only compare the dbhashes of non-capped collections because capped
  // collections are not necessarily truncated at the same points
  // across replica set members.
  nonCappedCollNames.forEach(...);
  var secondaryCollInfo = secondary.getDB(dbName).getCollectionInfos();
  secondaryCollInfo.forEach(...);
  primaryCollections.forEach(...);
  if (nonCappedCollNames.length === primaryCollections.length) {
      // If the primary and secondary have the same hashes for all the
      // collections in the database and there aren't any capped collections,
      // then the hashes for the whole database should match.
      if (primaryDBHash.md5 !== secondaryDBHash.md5) {
          ...
          success = false;
      }
  }
  \<close>
\<close>

definition checkSecondary ::
  "conn \<Rightarrow> dbhash \<Rightarrow> collinfo list \<Rightarrow> conn list \<Rightarrow> dbhash \<Rightarrow> bool \<Rightarrow> error + bool" where
  "checkSecondary primary primaryDBHash primaryCollInfo liveSlaves secondaryDBHash success =
     (if \<not> hash_ok secondaryDBHash then Inl CommandFailed
      else case find (\<lambda>node. host node = hash_host secondaryDBHash) liveSlaves of
        None \<Rightarrow> Inl AssertionFailed
      | Some secondary \<Rightarrow>
         (let primaryCollections = map fst (collections primaryDBHash);
              secondaryCollections = map fst (collections secondaryDBHash);
              success1 = (if length primaryCollections \<noteq> length secondaryCollections
                          then False else success);
              nonCappedCollNames = filter (\<lambda>collName. \<not> isCapped primary collName)
                                     primaryCollections;
              success2 = compareHashes primaryDBHash secondaryDBHash nonCappedCollNames success1
          in case getCollectionInfos secondary of
               Inl e \<Rightarrow> Inl e
             | Inr secondaryCollInfo \<Rightarrow>
                (case compareStats primary secondary primaryCollections
                        (compareInfos primaryCollInfo secondaryCollInfo success2) of
                   Inl e \<Rightarrow> Inl e
                 | Inr success4 \<Rightarrow>
                    Inr (if length nonCappedCollNames = length primaryCollections
                         then (if md5 primaryDBHash \<noteq> md5 secondaryDBHash then False
                               else success4)
                         else success4))))"

text \<open>
  \<^verbatim>\<open>
  this.getHashes = function(db) {
      this.getPrimary();
      var res = {};
      res.master = this.liveNodes.master.getDB(db).runCommand("dbhash");
      res.slaves = [];
      this.liveNodes.slaves.forEach(function(node) {
          var isArbiter = node.getDB('admin').isMaster('admin').arbiterOnly;
          if (!isArbiter) {
              res.slaves.push(node.getDB(db).runCommand("dbhash"));
          }
      });
      return res;
  };
  \<close>
  The argument is the outcome of \<^verbatim>\<open>this.getPrimary()\<close>: the exception it throws, or
  \<^verbatim>\<open>this.liveNodes\<close> as its leadership scan leaves it, the nodes answering for the
  database \<^verbatim>\<open>db\<close>. The result is the pair of \<^verbatim>\<open>res.master\<close> and \<^verbatim>\<open>res.slaves\<close>.
\<close>

definition getHashes :: "error + conn liveNodes \<Rightarrow> error + dbhash \<times> dbhash list" where
  "getHashes found =
     (case found of
        Inl e \<Rightarrow> Inl e
      | Inr live \<Rightarrow>
         (case master live of
            None \<Rightarrow> Inl TypeError
          | Some m \<Rightarrow>
             Inr (runCommand_dbhash m,
                  map runCommand_dbhash (filter (\<lambda>node. \<not> arbiterOnly node) (slaves live)))))"

text \<open>
  One database of \<^verbatim>\<open>combinedDBs\<close>: its name; the connection \<^verbatim>\<open>primary\<close>, which is read
  from \<^verbatim>\<open>rst.liveNodes.master\<close> before the loop, as it answers for this database; and
  the outcome of the \<^verbatim>\<open>this.getPrimary()\<close> that \<^verbatim>\<open>rst.getHashes(dbName)\<close> runs for this
  database.
\<close>

record database =
  dbName :: string
  primary :: conn
  getPrimary_liveNodes :: "error + conn liveNodes"

text \<open>\<^verbatim>\<open>rst.liveNodes.slaves\<close> once \<^verbatim>\<open>rst.getHashes(dbName)\<close> has returned.\<close>

definition liveSlaves :: "database \<Rightarrow> conn list" where
  "liveSlaves db = (case getPrimary_liveNodes db of Inl e \<Rightarrow> [] | Inr live \<Rightarrow> slaves live)"

text \<open>\<^verbatim>\<open>dbHashes.slaves.forEach(secondaryDBHash => { ... })\<close>\<close>

fun forEachSecondary ::
  "conn \<Rightarrow> dbhash \<Rightarrow> collinfo list \<Rightarrow> conn list \<Rightarrow> dbhash list \<Rightarrow> bool \<Rightarrow> error + bool" where
  "forEachSecondary p ph pinfo live [] success = Inr success"
| "forEachSecondary p ph pinfo live (secondaryDBHash # rest) success =
     (case checkSecondary p ph pinfo live secondaryDBHash success of
        Inl e \<Rightarrow> Inl e
      | Inr success' \<Rightarrow> forEachSecondary p ph pinfo live rest success')"

text \<open>
  \<^verbatim>\<open>
  for (var dbName of combinedDBs) {
      if (Array.contains(dbBlacklist, dbName)) { continue; }
      var dbHashes = rst.getHashes(dbName);
      var primaryDBHash = dbHashes.master;
      assert.commandWorked(primaryDBHash);
      try {
          var primaryCollInfo = primary.getDB(dbName).getCollectionInfos();
      } catch (e) {
          if (jsTest.options().skipValidationOnInvalidViewDefinitions) {
              assert.commandFailedWithCode(e, ErrorCodes.InvalidViewDefinition);
              ...
              continue;
          } else {
              throw e;
          }
      }
      dbHashes.slaves.forEach(...);
  }
  \<close>
\<close>

fun forEachDB :: "bool \<Rightarrow> string list \<Rightarrow> database list \<Rightarrow> bool \<Rightarrow> error + bool" where
  "forEachDB skipInvalidViews dbBlacklist [] success = Inr success"
| "forEachDB skipInvalidViews dbBlacklist (db # rest) success =
     (if dbName db \<in> set dbBlacklist then forEachDB skipInvalidViews dbBlacklist rest success
      else case getHashes (getPrimary_liveNodes db) of
        Inl e \<Rightarrow> Inl e
      | Inr (primaryDBHash, dbHashes_slaves) \<Rightarrow>
         if \<not> hash_ok primaryDBHash then Inl CommandFailed
         else case getCollectionInfos (primary db) of
           Inl e \<Rightarrow>
             (if skipInvalidViews then
                (if e = InvalidViewDefinition
                 then forEachDB skipInvalidViews dbBlacklist rest success
                 else Inl AssertionFailed)
              else Inl e)
         | Inr primaryCollInfo \<Rightarrow>
            (case forEachSecondary (primary db) primaryDBHash primaryCollInfo (liveSlaves db)
                    dbHashes_slaves success of
               Inl e \<Rightarrow> Inl e
             | Inr success' \<Rightarrow> forEachDB skipInvalidViews dbBlacklist rest success'))"

text \<open>
  \<^verbatim>\<open>checkDBHashesForReplSet\<close>: \<^verbatim>\<open>dbBlacklist.push('local')\<close>, \<^verbatim>\<open>var success = true\<close>, the
  loop over the databases, and
  \<^verbatim>\<open>assert(success, 'dbhash mismatch between primary and secondary')\<close>.
\<close>

definition checkDBHashesForReplSet ::
  "bool \<Rightarrow> string list \<Rightarrow> database list \<Rightarrow> error + unit" where
  "checkDBHashesForReplSet skipInvalidViews dbBlacklist combinedDBs =
     (case forEachDB skipInvalidViews (dbBlacklist @ [''local'']) combinedDBs True of
        Inl e \<Rightarrow> Inl e
      | Inr success \<Rightarrow> if success then Inr () else Inl AssertionFailed)"

text \<open>The three stats of a collection agree on two connections.\<close>

definition statsAgree :: "conn \<Rightarrow> conn \<Rightarrow> string \<Rightarrow> bool" where
  "statsAgree p s c =
     (capped (collStats p c) = capped (collStats s c)
      \<and> nindexes (collStats p c) = nindexes (collStats s c)
      \<and> ns (collStats p c) = ns (collStats s c))"

text \<open>Replacing the hash that a reply lists for one collection.\<close>

definition withHash :: "string \<Rightarrow> string \<Rightarrow> dbhash \<Rightarrow> dbhash" where
  "withHash collName h reply =
     reply\<lparr>collections :=
       map (\<lambda>(k, v). if k = collName then (k, h) else (k, v)) (collections reply)\<rparr>"

text \<open>
  An example: the database \<open>test\<close> with the collections \<open>log\<close> and \<open>users\<close> on a primary
  \<open>a:1\<close> and a secondary \<open>b:2\<close>, neither an arbiter. \<open>log\<close> is capped or not, as the
  first argument says; the secondary reports another hash for \<open>log\<close>, but only when the
  collection is capped, and the given hash for the whole database.
\<close>

definition example_stats :: "bool \<Rightarrow> string \<Rightarrow> collstats" where
  "example_stats log_capped collName =
     \<lparr>stats_ok = True, capped = (log_capped \<and> collName = ''log''), nindexes = 1,
      ns = ''test.'' @ collName\<rparr>"

definition example_conn :: "bool \<Rightarrow> string \<Rightarrow> string \<Rightarrow> string \<Rightarrow> conn" where
  "example_conn log_capped h log_hash db_hash =
     \<lparr>host = h, arbiterOnly = False,
      runCommand_dbhash = \<lparr>hash_ok = True, hash_host = h,
        collections = [(''log'', log_hash), (''users'', ''h2'')], md5 = db_hash\<rparr>,
      isCapped = (\<lambda>collName. log_capped \<and> collName = ''log''),
      getCollectionInfos = Inr [CollInfo ''log'' ''options'', CollInfo ''users'' ''options''],
      collStats = example_stats log_capped\<rparr>"

definition example_primary :: "bool \<Rightarrow> conn" where
  "example_primary log_capped = example_conn log_capped ''a:1'' ''h1'' ''m1''"

definition example_secondary :: "bool \<Rightarrow> string \<Rightarrow> conn" where
  "example_secondary log_capped secondary_md5 =
     example_conn log_capped ''b:2'' (if log_capped then ''h9'' else ''h1'') secondary_md5"

definition example_db :: "bool \<Rightarrow> string \<Rightarrow> database" where
  "example_db log_capped secondary_md5 =
     \<lparr>dbName = ''test'',
      primary = example_primary log_capped,
      getPrimary_liveNodes =
        Inr \<lparr>master = Some (example_primary log_capped),
             slaves = [example_secondary log_capped secondary_md5]\<rparr>\<rparr>"

text \<open>
  The same database on a set with a third member \<open>c:3\<close>, an arbiter, which reports no
  collection and another hash for the whole database.
\<close>

definition example_arbiter :: conn where
  "example_arbiter =
     (example_conn False ''c:3'' ''h7'' ''m7'')
       \<lparr>arbiterOnly := True,
        runCommand_dbhash := \<lparr>hash_ok = True, hash_host = ''c:3'', collections = [],
          md5 = ''m7''\<rparr>\<rparr>"

definition example_db_with_arbiter :: database where
  "example_db_with_arbiter =
     \<lparr>dbName = ''test'',
      primary = example_primary False,
      getPrimary_liveNodes =
        Inr \<lparr>master = Some (example_primary False),
             slaves = [example_arbiter, example_secondary False ''m1'']\<rparr>\<rparr>"

text \<open>
  The database \<open>views\<close>, whose collection infos the primary cannot list because a view
  definition is invalid. The secondary \<open>b:2\<close> reports no collection at all and another
  hash for the whole database.
\<close>

definition invalid_views_db :: database where
  "invalid_views_db =
     \<lparr>dbName = ''views'',
      primary = (example_primary False)\<lparr>getCollectionInfos := Inl InvalidViewDefinition\<rparr>,
      getPrimary_liveNodes =
        Inr \<lparr>master = Some ((example_primary False)
                               \<lparr>getCollectionInfos := Inl InvalidViewDefinition\<rparr>),
             slaves = [(example_secondary False ''m2'')
                         \<lparr>runCommand_dbhash := \<lparr>hash_ok = True, hash_host = ''b:2'',
                            collections = [], md5 = ''m2''\<rparr>\<rparr>]\<rparr>\<rparr>"

section \<open>Reading operation times\<close>

text \<open>
  The part of a \<^verbatim>\<open>replSetGetStatus\<close> reply that the waits read: \<^verbatim>\<open>ok\<close>, \<^verbatim>\<open>myState\<close>, the
  \<^verbatim>\<open>optime\<close> of the entry of \<^verbatim>\<open>members\<close> with \<^verbatim>\<open>self\<close> set (\<open>None\<close> when the entry has
  none, as for an arbiter), and of \<^verbatim>\<open>optimes\<close> the applied, the durable and the
  majority-committed operation time (\<open>None\<close> when the reply has none). Within one
  polling pass a member gives the same reply to every \<^verbatim>\<open>replSetGetStatus\<close>.
\<close>

record replSetGetStatus =
  reply_ok :: bool
  myState :: nat
  self_optime :: "optime option"
  appliedOpTime :: optime
  durableOpTime :: optime
  readConcernMajorityOpTime :: "optime option"

text \<open>\<^verbatim>\<open>ReplSetTest.State.PRIMARY\<close> and \<^verbatim>\<open>ReplSetTest.State.ARBITER\<close>.\<close>

definition PRIMARY :: nat where "PRIMARY = 1"

definition ARBITER :: nat where "ARBITER = 7"

text \<open>\<^verbatim>\<open>ReplSetTest.OpTimeType = {LAST_APPLIED: 1, LAST_DURABLE: 2}\<close>\<close>

datatype OpTimeType = LAST_APPLIED | LAST_DURABLE

text \<open>
  \<^verbatim>\<open>assert.commandWorked(conn.getDB("admin").runCommand({replSetGetStatus: 1}))\<close>: the
  command itself can throw, and the assertion throws on a reply that is not ok.
\<close>

definition commandWorked :: "error + replSetGetStatus \<Rightarrow> error + replSetGetStatus" where
  "commandWorked res =
     (case res of
        Inl e \<Rightarrow> Inl e
      | Inr reply \<Rightarrow> if reply_ok reply then Inr reply else Inl CommandFailed)"

text \<open>
  \<^verbatim>\<open>
  function _getLastOpTime(conn) {
      var replSetStatus =
          assert.commandWorked(conn.getDB("admin").runCommand({replSetGetStatus: 1}));
      var connStatus = replSetStatus.members.filter(m => m.self)[0];
      return connStatus.optime;
  }
  \<close>
\<close>

definition getLastOpTime :: "error + replSetGetStatus \<Rightarrow> error + optime option" where
  "getLastOpTime conn =
     (case commandWorked conn of
        Inl e \<Rightarrow> Inl e
      | Inr replSetStatus \<Rightarrow> Inr (self_optime replSetStatus))"

text \<open>\<^verbatim>\<open>myOpTime.ts ? myOpTime.ts : myOpTime\<close>\<close>

fun timestampOf :: "optime \<Rightarrow> timestamp" where
  "timestampOf (OpTime ts n) = ts"
| "timestampOf (Bare ts) = ts"

text \<open>
  \<^verbatim>\<open>
  function _getLastOpTimeTimestamp(conn) {
      var myOpTime = _getLastOpTime(conn);
      if (!myOpTime) {
          // Must be an ARBITER
          return undefined;
      }
      return myOpTime.ts ? myOpTime.ts : myOpTime;
  }
  \<close>
\<close>

definition getLastOpTimeTimestamp :: "error + replSetGetStatus \<Rightarrow> error + timestamp option" where
  "getLastOpTimeTimestamp conn =
     (case getLastOpTime conn of
        Inl e \<Rightarrow> Inl e
      | Inr None \<Rightarrow> Inr None
      | Inr (Some myOpTime) \<Rightarrow> Inr (Some (timestampOf myOpTime)))"

text \<open>
  \<^verbatim>\<open>
  function _getReadConcernMajorityOpTime(conn) {
      var replSetStatus =
          assert.commandWorked(conn.getDB("admin").runCommand({replSetGetStatus: 1}));
      return (replSetStatus.OpTimes || replSetStatus.optimes).readConcernMajorityOpTime ||
          {ts: Timestamp(0, 0), t: NumberLong(0)};
  }
  \<close>
\<close>

definition getReadConcernMajorityOpTime :: "error + replSetGetStatus \<Rightarrow> error + optime" where
  "getReadConcernMajorityOpTime conn =
     (case commandWorked conn of
        Inl e \<Rightarrow> Inl e
      | Inr replSetStatus \<Rightarrow>
         (case readConcernMajorityOpTime replSetStatus of
            Some ot \<Rightarrow> Inr ot
          | None \<Rightarrow> Inr (OpTime (Timestamp 0 0) 0)))"

text \<open>
  \<^verbatim>\<open>
  function _getDurableOpTimeTimestamp(conn) {
      var replSetStatus =
          assert.commandWorked(conn.getDB("admin").runCommand({replSetGetStatus: 1}));
      var runningWithoutJournaling = TestData.noJournal || "inMemory" == TestData.storageEngine ||
          "ephemeralForTest" == TestData.storageEngine;
      var opTimeType = "durableOpTime";
      if (runningWithoutJournaling) {
          opTimeType = "appliedOpTime";
      }
      return replSetStatus.optimes[opTimeType].ts;
  }
  \<close>
  \<open>runningWithoutJournaling\<close> is a parameter; the result is the field \<^verbatim>\<open>ts\<close>, which a
  bare timestamp does not have.
\<close>

definition getDurableOpTimeTimestamp ::
  "bool \<Rightarrow> error + replSetGetStatus \<Rightarrow> error + timestamp option" where
  "getDurableOpTimeTimestamp runningWithoutJournaling conn =
     (case commandWorked conn of
        Inl e \<Rightarrow> Inl e
      | Inr replSetStatus \<Rightarrow>
         Inr (field_ts (if runningWithoutJournaling then appliedOpTime replSetStatus
                        else durableOpTime replSetStatus)))"

section \<open>Polling\<close>

text \<open>
  Modelled from the spec: \<^verbatim>\<open>assert.soonNoExcept\<close> is not part of this file. By the spec
  (4.2) the predicate is invoked repeatedly until it returns true or the timeout
  elapses; a predicate that raises a transient observation error is treated as not yet
  satisfied and retried, except for programming errors, which propagate immediately;
  on timeout the wait fails. The spec does not list the programming errors:
  \<open>programmingError\<close> tells which exceptions are. The attempts that fit into the timeout
  are given as the list of what each attempt observes of the set; the predicate \<open>func\<close>
  takes the observation and the variables it shares with its caller, and returns the
  variables with the exception it threw or the value it returned.
\<close>

fun soonNoExcept ::
  "(error \<Rightarrow> bool) \<Rightarrow> ('o \<Rightarrow> 's \<Rightarrow> 's \<times> (error + bool)) \<Rightarrow> 'o list \<Rightarrow> 's \<Rightarrow> error + 's" where
  "soonNoExcept programmingError func [] st = Inl TimedOut"
| "soonNoExcept programmingError func (obs # later) st =
     (case func obs st of
        (st', Inr True) \<Rightarrow> Inr st'
      | (st', Inr False) \<Rightarrow> soonNoExcept programmingError func later st'
      | (st', Inl e) \<Rightarrow>
         if programmingError e then Inl e
         else soonNoExcept programmingError func later st')"

text \<open>
  The reading in which the programming errors are the TypeErrors, the exceptions of
  the language itself; the others are thrown by commands and assertions on what the set
  answers.
\<close>

definition typeErrors :: "error \<Rightarrow> bool" where
  "typeErrors e = (e = TypeError)"

section \<open>Waiting for the last operation to be committed\<close>

text \<open>
  The function given to \<^verbatim>\<open>assert.soonNoExcept\<close> by \<^verbatim>\<open>awaitLastOpCommitted\<close>, over the
  replies of the nodes \<^verbatim>\<open>rst.nodes\<close> in one pass:
  \<^verbatim>\<open>
  for (var i = 0; i < rst.nodes.length; i++) {
      var node = rst.nodes[i];
      // Continue if we're connected to an arbiter
      var res = assert.commandWorked(node.adminCommand({replSetGetStatus: 1}));
      if (res.myState == ReplSetTest.State.ARBITER) {
          continue;
      }
      var rcmOpTime = _getReadConcernMajorityOpTime(node);
      if (friendlyEqual(rcmOpTime, {ts: Timestamp(0, 0), t: NumberLong(0)})) {
          return false;
      }
      if (_isEarlierOpTime(rcmOpTime, masterOpTime)) {
          return false;
      }
  }
  return true;
  \<close>
  \<^verbatim>\<open>masterOpTime\<close> is \<^verbatim>\<open>undefined\<close> (\<open>None\<close>) when the primary reported no operation time;
  \<^verbatim>\<open>_isEarlierOpTime\<close> then throws on reading its field \<^verbatim>\<open>t\<close>.
\<close>

fun committedOnAll :: "optime option \<Rightarrow> (error + replSetGetStatus) list \<Rightarrow> error + bool" where
  "committedOnAll masterOpTime [] = Inr True"
| "committedOnAll masterOpTime (node # rest) =
     (case commandWorked node of
        Inl e \<Rightarrow> Inl e
      | Inr res \<Rightarrow>
         if myState res = ARBITER then committedOnAll masterOpTime rest
         else
           (case getReadConcernMajorityOpTime node of
              Inl e \<Rightarrow> Inl e
            | Inr rcmOpTime \<Rightarrow>
               if rcmOpTime = OpTime (Timestamp 0 0) 0 then Inr False
               else
                 (case masterOpTime of
                    None \<Rightarrow> Inl TypeError
                  | Some ot2 \<Rightarrow>
                     (case isEarlierOpTime rcmOpTime ot2 of
                        Inl e \<Rightarrow> Inl e
                      | Inr True \<Rightarrow> Inr False
                      | Inr False \<Rightarrow> committedOnAll masterOpTime rest))))"

text \<open>
  \<^verbatim>\<open>
  this.awaitLastOpCommitted = function() {
      var rst = this;
      var master = rst.getPrimary();
      var masterOpTime = _getLastOpTime(master);
      ...
      assert.soonNoExcept(function() { ... }, "Op with OpTime ... failed to be committed ...");
      return masterOpTime;
  };
  \<close>
  \<open>primary_found\<close> is the outcome of \<^verbatim>\<open>rst.getPrimary()\<close>, \<open>status_of\<close> the reply of a
  connection at that moment, and each element of \<open>observations\<close> the replies of
  \<^verbatim>\<open>rst.nodes\<close> in one polling pass; \<open>programmingError\<close> is handed to the wait.
\<close>

definition awaitLastOpCommitted ::
  "(error \<Rightarrow> bool) \<Rightarrow> error + 'n \<Rightarrow> ('n \<Rightarrow> error + replSetGetStatus)
     \<Rightarrow> (error + replSetGetStatus) list list \<Rightarrow> error + optime option" where
  "awaitLastOpCommitted programmingError primary_found status_of observations =
     (case primary_found of
        Inl e \<Rightarrow> Inl e
      | Inr m \<Rightarrow>
         (case getLastOpTime (status_of m) of
            Inl e \<Rightarrow> Inl e
          | Inr masterOpTime \<Rightarrow>
             (case soonNoExcept programmingError
                     (\<lambda>nodes u. (u, committedOnAll masterOpTime nodes)) observations () of
                Inl e \<Rightarrow> Inl e
              | Inr u \<Rightarrow> Inr masterOpTime)))"

text \<open>A member is an arbiter: its reply is ok and has the state \<^verbatim>\<open>ARBITER\<close>.\<close>

definition isArbiter :: "error + replSetGetStatus \<Rightarrow> bool" where
  "isArbiter node =
     (case commandWorked node of Inl e \<Rightarrow> False | Inr res \<Rightarrow> myState res = ARBITER)"

text \<open>
  The ordering of operation times in the words of the spec (3): "if both terms are set
  (not -1) and differ, the lower term is earlier regardless of timestamp; otherwise
  compare timestamps lexicographically (seconds, then ordinal)", and (4.1) an operation
  time missing a term is compared by its timestamp only.
\<close>

fun termOf :: "optime \<Rightarrow> int" where
  "termOf (OpTime ts n) = n"
| "termOf (Bare ts) = - 1"

definition earlier :: "optime \<Rightarrow> optime \<Rightarrow> bool" where
  "earlier a b =
     (if termOf a \<noteq> - 1 \<and> termOf b \<noteq> - 1 \<and> termOf a \<noteq> termOf b then termOf a < termOf b
      else getTime (timestampOf a) < getTime (timestampOf b)
           \<or> (getTime (timestampOf a) = getTime (timestampOf b)
               \<and> getInc (timestampOf a) < getInc (timestampOf b)))"

text \<open>
  A member has committed the target, in the words of the spec (4.4): its
  majority-committed operation time can be read, is set (not the zero operation time),
  and is no earlier than the target by the ordering of the spec.
\<close>

definition committed :: "optime \<Rightarrow> error + replSetGetStatus \<Rightarrow> bool" where
  "committed target node =
     (case getReadConcernMajorityOpTime node of
        Inl e \<Rightarrow> False
      | Inr rcmOpTime \<Rightarrow> rcmOpTime \<noteq> OpTime (Timestamp 0 0) 0 \<and> \<not> earlier rcmOpTime target)"

text \<open>
  An operation time that carries a term which a double holds exactly, and a member
  whose majority-committed operation time, if it reports one, is such.
\<close>

definition exactTerm :: "optime \<Rightarrow> bool" where
  "exactTerm ot = (case ot of OpTime ts n \<Rightarrow> \<bar>n\<bar> \<le> 2 ^ 53 | Bare ts \<Rightarrow> False)"

definition reportsExactTerm :: "error + replSetGetStatus \<Rightarrow> bool" where
  "reportsExactTerm node =
     (case node of
        Inl e \<Rightarrow> True
      | Inr reply \<Rightarrow>
         (case readConcernMajorityOpTime reply of None \<Rightarrow> True | Some ot \<Rightarrow> exactTerm ot))"

section \<open>Waiting for replication\<close>

text \<open>
  What a polling pass of \<^verbatim>\<open>awaitReplication\<close> reads from a node of
  \<^verbatim>\<open>self.liveNodes.slaves\<close>: the configuration version
  \<^verbatim>\<open>slave.getDB("local")['system.replset'].findOne().version\<close> and the reply to
  \<^verbatim>\<open>replSetGetStatus\<close>.
\<close>

record secondary =
  replsetVersion :: "error + int"
  status :: "error + replSetGetStatus"

text \<open>
  The variables of \<^verbatim>\<open>awaitReplication\<close> that its polling function reads and assigns:
  \<^verbatim>\<open>masterLatestOpTime\<close> (the target the secondaries are compared with; \<open>None\<close> is
  \<^verbatim>\<open>undefined\<close>), \<^verbatim>\<open>configVersion\<close>, \<^verbatim>\<open>masterOpTime\<close> (only printed) and \<^verbatim>\<open>master\<close>, over the
  connections \<open>'n\<close>.
\<close>

record 'n awaitState =
  masterLatestOpTime :: "timestamp option"
  configVersion :: int
  masterOpTime :: "timestamp option"
  primaryConn :: 'n

text \<open>
  What one polling pass observes: the nodes of \<^verbatim>\<open>self.liveNodes.slaves\<close>, the
  configuration version and the status reply of a connection to a primary, and the
  outcome of \<^verbatim>\<open>awaitLastOpTimeWrittenFn()\<close> should the pass call it:
  \<^verbatim>\<open>
  var awaitLastOpTimeWrittenFn = function() {
      var master = self.getPrimary();
      assert.soonNoExcept(function() {
          try {
              masterLatestOpTime = _getLastOpTimeTimestamp(master);
          } catch (e) {
              print("ReplSetTest caught exception " + e);
              return false;
          }
          return true;
      }, "awaiting oplog query", timeout);
  };
  \<close>
  It throws (\<^verbatim>\<open>getPrimary\<close> or the wait timed out) or assigns \<^verbatim>\<open>masterLatestOpTime\<close>; its
  \<^verbatim>\<open>master\<close> is a variable of its own.
\<close>

record 'n observation =
  liveNodes_slaves :: "secondary list"
  primary_replsetVersion :: "'n \<Rightarrow> error + int"
  primary_status :: "'n \<Rightarrow> error + replSetGetStatus"
  awaitLastOpTimeWritten :: "error + timestamp option"

text \<open>
  \<^verbatim>\<open>this.getPrimary()\<close> inside the function given to \<^verbatim>\<open>assert.soonNoExcept\<close>. The function
  is a \<^verbatim>\<open>function() { ... }\<close> that the wait calls without a receiver, and the file is in
  strict mode (\<^verbatim>\<open>'use strict'\<close> opens the constructor): \<^verbatim>\<open>this\<close> is \<^verbatim>\<open>undefined\<close> there, not
  the \<^verbatim>\<open>ReplSetTest\<close> object, which the surrounding code reaches as \<^verbatim>\<open>self\<close>. Reading
  \<^verbatim>\<open>getPrimary\<close> of it throws a TypeError.
\<close>

definition this_getPrimary :: "error + 'n" where
  "this_getPrimary = Inl TypeError"

text \<open>
  \<^verbatim>\<open>
  var getSecondaryTimestampFn = _getLastOpTimeTimestamp;
  if (secondaryOpTimeType == ReplSetTest.OpTimeType.LAST_DURABLE) {
      getSecondaryTimestampFn = _getDurableOpTimeTimestamp;
  }
  var ts = getSecondaryTimestampFn(slave);
  \<close>
\<close>

definition getSecondaryTimestamp ::
  "bool \<Rightarrow> OpTimeType \<Rightarrow> error + replSetGetStatus \<Rightarrow> error + timestamp option" where
  "getSecondaryTimestamp runningWithoutJournaling secondaryOpTimeType slave =
     (if secondaryOpTimeType = LAST_DURABLE
      then getDurableOpTimeTimestamp runningWithoutJournaling slave
      else getLastOpTimeTimestamp slave)"

text \<open>
  The \<^verbatim>\<open>for\<close> loop over \<^verbatim>\<open>self.liveNodes.slaves\<close> in the \<^verbatim>\<open>try\<close> block of the polling
  function. The result is the variables and either the exception thrown or the value
  returned.
  \<^verbatim>\<open>
  var slaveConfigVersion = slave.getDB("local")['system.replset'].findOne().version;
  if (configVersion != slaveConfigVersion) {
      ...
      if (slaveConfigVersion > configVersion) {
          master = this.getPrimary();
          configVersion = master.getDB("local")['system.replset'].findOne().version;
          masterOpTime = _getLastOpTimeTimestamp(master);
          masterName = master.toString().substr(14);  // strip "connection to "
          ...
      }
      return false;
  }
  // Continue if we're connected to an arbiter
  var res = assert.commandWorked(slave.adminCommand({replSetGetStatus: 1}));
  if (res.myState == ReplSetTest.State.ARBITER) {
      continue;
  }
  ++secondaryCount;
  ...
  var ts = getSecondaryTimestampFn(slave);
  if (masterLatestOpTime.t < ts.t ||
      (masterLatestOpTime.t == ts.t && masterLatestOpTime.i < ts.i)) {
      masterLatestOpTime = _getLastOpTimeTimestamp(master);
      ...
      return false;
  }
  if (!friendlyEqual(masterLatestOpTime, ts)) {
      ...
      return false;
  }
  \<close>
  Reading \<^verbatim>\<open>masterLatestOpTime.t\<close> or \<^verbatim>\<open>ts.t\<close> of \<^verbatim>\<open>undefined\<close> throws a TypeError.
  \<^verbatim>\<open>friendlyEqual\<close> of two timestamps is their equality.
\<close>

fun checkSecondaries ::
  "bool \<Rightarrow> OpTimeType \<Rightarrow> 'n observation \<Rightarrow> secondary list \<Rightarrow> 'n awaitState
     \<Rightarrow> 'n awaitState \<times> (error + bool)" where
  "checkSecondaries noJournal secondaryOpTimeType obs [] st = (st, Inr True)"
| "checkSecondaries noJournal secondaryOpTimeType obs (slave # rest) st =
     (case replsetVersion slave of
        Inl e \<Rightarrow> (st, Inl e)
      | Inr slaveConfigVersion \<Rightarrow>
         if configVersion st \<noteq> slaveConfigVersion then
           (if slaveConfigVersion > configVersion st then
              (case this_getPrimary of
                 Inl e \<Rightarrow> (st, Inl e)
               | Inr m \<Rightarrow>
                  (case primary_replsetVersion obs m of
                     Inl e \<Rightarrow> (st\<lparr>primaryConn := m\<rparr>, Inl e)
                   | Inr v \<Rightarrow>
                      (case getLastOpTimeTimestamp (primary_status obs m) of
                         Inl e \<Rightarrow> (st\<lparr>primaryConn := m, configVersion := v\<rparr>, Inl e)
                       | Inr ts \<Rightarrow>
                          (st\<lparr>primaryConn := m, configVersion := v, masterOpTime := ts\<rparr>,
                           Inr False))))
            else (st, Inr False))
         else
           (case commandWorked (status slave) of
              Inl e \<Rightarrow> (st, Inl e)
            | Inr res \<Rightarrow>
               if myState res = ARBITER
               then checkSecondaries noJournal secondaryOpTimeType obs rest st
               else
                 (case getSecondaryTimestamp noJournal secondaryOpTimeType (status slave) of
                    Inl e \<Rightarrow> (st, Inl e)
                  | Inr ts_opt \<Rightarrow>
                     (case masterLatestOpTime st of
                        None \<Rightarrow> (st, Inl TypeError)
                      | Some latest \<Rightarrow>
                         (case ts_opt of
                            None \<Rightarrow> (st, Inl TypeError)
                          | Some ts \<Rightarrow>
                             if getTime latest < getTime ts
                                \<or> (getTime latest = getTime ts \<and> getInc latest < getInc ts)
                             then
                               (case getLastOpTimeTimestamp
                                       (primary_status obs (primaryConn st)) of
                                  Inl e \<Rightarrow> (st, Inl e)
                                | Inr new \<Rightarrow> (st\<lparr>masterLatestOpTime := new\<rparr>, Inr False))
                             else if latest \<noteq> ts then (st, Inr False)
                             else checkSecondaries noJournal secondaryOpTimeType obs rest st)))))"

text \<open>
  The polling function of \<^verbatim>\<open>awaitReplication\<close>:
  \<^verbatim>\<open>
  try {
      ...
      for (var i = 0; i < self.liveNodes.slaves.length; i++) { ... }
      ...
      return true;
  } catch (e) {
      ...
      // We might have a new master now
      awaitLastOpTimeWrittenFn();
      ...
      return false;
  }
  \<close>
\<close>

definition pollSecondaries ::
  "bool \<Rightarrow> OpTimeType \<Rightarrow> 'n observation \<Rightarrow> 'n awaitState \<Rightarrow> 'n awaitState \<times> (error + bool)" where
  "pollSecondaries noJournal secondaryOpTimeType obs st =
     (case checkSecondaries noJournal secondaryOpTimeType obs (liveNodes_slaves obs) st of
        (st', Inr b) \<Rightarrow> (st', Inr b)
      | (st', Inl e) \<Rightarrow>
         (case awaitLastOpTimeWritten obs of
            Inl e' \<Rightarrow> (st', Inl e')
          | Inr ts \<Rightarrow> (st'\<lparr>masterLatestOpTime := ts\<rparr>, Inr False)))"

text \<open>
  What \<^verbatim>\<open>awaitReplication\<close> resolves before it polls, in its own body, where \<^verbatim>\<open>this\<close> is
  the \<^verbatim>\<open>ReplSetTest\<close> object:
  \<^verbatim>\<open>
  master = this.getPrimary();
  configVersion = this.getReplSetConfigFromNode().version;
  masterOpTime = _getLastOpTimeTimestamp(master);
  \<close>
\<close>

record 'n resolved =
  getPrimary :: "error + 'n"
  getReplSetConfigFromNode_version :: "error + int"
  lastOpTimeTimestamp :: "'n \<Rightarrow> error + timestamp option"

definition resolve :: "'n resolved \<Rightarrow> error + 'n \<times> int \<times> timestamp option" where
  "resolve r =
     (case getPrimary r of
        Inl e \<Rightarrow> Inl e
      | Inr m \<Rightarrow>
         (case getReplSetConfigFromNode_version r of
            Inl e \<Rightarrow> Inl e
          | Inr v \<Rightarrow>
             (case lastOpTimeTimestamp r m of
                Inl e \<Rightarrow> Inl e
              | Inr ot \<Rightarrow> Inr (m, v, ot))))"

text \<open>
  \<^verbatim>\<open>awaitReplication\<close>, with the timeout and the operation time type already defaulted:
  \<^verbatim>\<open>awaitLastOpTimeWrittenFn()\<close>, whose outcome is \<open>written\<close>; the \<^verbatim>\<open>try\<close> that resolves the
  primary, with its \<^verbatim>\<open>catch\<close> that resolves it once more; and the wait, to which
  \<open>programmingError\<close> is handed. The result on success is the final value of the
  variables.
\<close>

definition awaitReplication ::
  "(error \<Rightarrow> bool) \<Rightarrow> bool \<Rightarrow> OpTimeType \<Rightarrow> error + timestamp option \<Rightarrow> 'n resolved
     \<Rightarrow> 'n resolved \<Rightarrow> 'n observation list \<Rightarrow> error + 'n awaitState" where
  "awaitReplication programmingError noJournal secondaryOpTimeType written first retry
     observations =
     (case written of
        Inl e \<Rightarrow> Inl e
      | Inr latest \<Rightarrow>
         (case (case resolve first of Inl e \<Rightarrow> resolve retry | Inr r \<Rightarrow> Inr r) of
            Inl e \<Rightarrow> Inl e
          | Inr (m, v, ot) \<Rightarrow>
             soonNoExcept programmingError (pollSecondaries noJournal secondaryOpTimeType)
               observations
               \<lparr>masterLatestOpTime = latest, configVersion = v, masterOpTime = ot,
                primaryConn = m\<rparr>))"

text \<open>
  A node has the configuration version of the target, and a node is synced: its
  reply is ok and its timestamp of the requested kind is the target.
\<close>

definition sameConfig :: "'n awaitState \<Rightarrow> secondary \<Rightarrow> bool" where
  "sameConfig st slave = (replsetVersion slave = Inr (configVersion st))"

definition synced :: "bool \<Rightarrow> OpTimeType \<Rightarrow> 'n awaitState \<Rightarrow> secondary \<Rightarrow> bool" where
  "synced noJournal secondaryOpTimeType st slave =
     (case commandWorked (status slave) of
        Inl e \<Rightarrow> False
      | Inr res \<Rightarrow>
         (case getSecondaryTimestamp noJournal secondaryOpTimeType (status slave) of
            Inl e \<Rightarrow> False
          | Inr None \<Rightarrow> False
          | Inr (Some ts) \<Rightarrow> masterLatestOpTime st = Some ts))"

text \<open>
  The scenario of the spec: the leader and the first secondary are at the operation
  time \<open>{term 5, ts (100, 2)}\<close>, the second secondary is at the given timestamp, in term
  5. All members have the configuration version 1.
\<close>

definition member_status :: "nat \<Rightarrow> timestamp \<Rightarrow> replSetGetStatus" where
  "member_status state ts =
     \<lparr>reply_ok = True, myState = state, self_optime = Some (OpTime ts 5),
      appliedOpTime = OpTime ts 5, durableOpTime = OpTime ts 5,
      readConcernMajorityOpTime = Some (OpTime ts 5)\<rparr>"

definition scenario :: "timestamp \<Rightarrow> unit observation" where
  "scenario ts =
     \<lparr>liveNodes_slaves =
        [\<lparr>replsetVersion = Inr 1, status = Inr (member_status 2 (Timestamp 100 2))\<rparr>,
         \<lparr>replsetVersion = Inr 1, status = Inr (member_status 2 ts)\<rparr>],
      primary_replsetVersion = (\<lambda>m. Inr 1),
      primary_status = (\<lambda>m. Inr (member_status 1 (Timestamp 100 2))),
      awaitLastOpTimeWritten = Inr (Some (Timestamp 100 2))\<rparr>"

definition scenario_leader :: "unit resolved" where
  "scenario_leader =
     \<lparr>getPrimary = Inr (), getReplSetConfigFromNode_version = Inr 1,
      lastOpTimeTimestamp = (\<lambda>m. Inr (Some (Timestamp 100 2)))\<rparr>"

definition scenario_target :: "unit awaitState" where
  "scenario_target =
     \<lparr>masterLatestOpTime = Some (Timestamp 100 2), configVersion = 1,
      masterOpTime = Some (Timestamp 100 2), primaryConn = ()\<rparr>"

text \<open>
  A set whose only other member is an arbiter that still has the configuration
  version 0, while the target was read at version 1.
\<close>

definition arbiter_behind :: "unit observation" where
  "arbiter_behind =
     \<lparr>liveNodes_slaves =
        [\<lparr>replsetVersion = Inr 0, status = Inr (member_status ARBITER (Timestamp 0 0))\<rparr>],
      primary_replsetVersion = (\<lambda>m. Inr 1),
      primary_status = (\<lambda>m. Inr (member_status 1 (Timestamp 100 2))),
      awaitLastOpTimeWritten = Inr (Some (Timestamp 100 2))\<rparr>"

text \<open>
  A set that has been reconfigured after the target was read at version 1: the
  primary and the one secondary both have the configuration version 2, and both are
  at the timestamp \<open>(100, 2)\<close>.
\<close>

definition reconfigured :: "unit observation" where
  "reconfigured =
     \<lparr>liveNodes_slaves =
        [\<lparr>replsetVersion = Inr 2, status = Inr (member_status 2 (Timestamp 100 2))\<rparr>],
      primary_replsetVersion = (\<lambda>m. Inr 2),
      primary_status = (\<lambda>m. Inr (member_status 1 (Timestamp 100 2))),
      awaitLastOpTimeWritten = Inr (Some (Timestamp 100 2))\<rparr>"

text \<open>
  A secondary that is ahead of the target \<open>(100, 2)\<close>: it is at \<open>(100, 3)\<close>, and so is
  the primary by now.
\<close>

definition secondary_ahead :: "unit observation" where
  "secondary_ahead =
     \<lparr>liveNodes_slaves =
        [\<lparr>replsetVersion = Inr 1, status = Inr (member_status 2 (Timestamp 100 3))\<rparr>],
      primary_replsetVersion = (\<lambda>m. Inr 1),
      primary_status = (\<lambda>m. Inr (member_status 1 (Timestamp 100 3))),
      awaitLastOpTimeWritten = Inr (Some (Timestamp 100 3))\<rparr>"

text \<open>
  A change of leader during \<^verbatim>\<open>awaitLastOpCommitted\<close>. When the wait starts, node 0 is
  the primary, at \<open>{term 5, ts (100, 2)}\<close>. In the polling pass node 1 is the primary,
  and both nodes are at \<open>{term 6, ts (200, 1)}\<close>.
\<close>

definition before_failover :: "nat \<Rightarrow> error + replSetGetStatus" where
  "before_failover node =
     Inr (member_status (if node = 0 then PRIMARY else 2) (Timestamp 100 2))"

definition after_failover :: "(error + replSetGetStatus) list" where
  "after_failover =
     [Inr ((member_status 2 (Timestamp 200 1))
            \<lparr>self_optime := Some (OpTime (Timestamp 200 1) 6),
             readConcernMajorityOpTime := Some (OpTime (Timestamp 200 1) 6)\<rparr>),
      Inr ((member_status PRIMARY (Timestamp 200 1))
            \<lparr>self_optime := Some (OpTime (Timestamp 200 1) 6),
             readConcernMajorityOpTime := Some (OpTime (Timestamp 200 1) 6)\<rparr>)]"

text \<open>
  A member under the legacy protocol, at the timestamp \<open>(100, 2)\<close>: the operation time
  of its entry in \<^verbatim>\<open>members\<close> is a bare timestamp, and the operation times of
  \<^verbatim>\<open>optimes\<close> are documents with the term \<open>-1\<close>.
\<close>

definition legacy_member :: "error + replSetGetStatus" where
  "legacy_member =
     Inr \<lparr>reply_ok = True, myState = 2, self_optime = Some (Bare (Timestamp 100 2)),
          appliedOpTime = OpTime (Timestamp 100 2) (- 1),
          durableOpTime = OpTime (Timestamp 100 2) (- 1),
          readConcernMajorityOpTime = Some (OpTime (Timestamp 100 2) (- 1))\<rparr>"

section \<open>Properties of the ordering\<close>

lemma spacing_below: "m < 2 ^ 53 \<Longrightarrow> spacing m = 1"
  by (simp add: spacing.simps)

lemma roundToDouble_exact: "m \<le> 2 ^ 53 \<Longrightarrow> roundToDouble m = m"
proof (cases "m < 2 ^ 53")
  case True
  then show ?thesis by (simp add: roundToDouble_def spacing_below)
next
  case False
  assume "m \<le> 2 ^ 53"
  with False have m: "m = 2 ^ 53" by simp
  have "spacing (2 ^ 53) = 2"
    by (subst spacing.simps) (simp add: spacing_below)
  then show ?thesis unfolding m by (simp add: roundToDouble_def)
qed

text \<open>An integer up to \<open>2^53\<close> in magnitude is converted exactly.\<close>

lemma toNumber_exact: "\<bar>n\<bar> \<le> 2 ^ 53 \<Longrightarrow> toNumber n = n"
  by (simp add: toNumber_def roundToDouble_exact)

text \<open>The first integer that is not a double is rounded to its neighbour \<open>2^53\<close>.\<close>

lemma toNumber_above: "toNumber 9007199254740993 = 9007199254740992"
  by (simp add: toNumber_def roundToDouble_def spacing.simps [of 9007199254740993] spacing_below)

text \<open>
  On two operation times that carry a term the rule of the spec holds, with the terms
  compared as doubles: when both terms are set and differ, the lower term is earlier;
  otherwise the timestamps decide.
\<close>

lemma isEarlierOpTime_OpTime:
  "isEarlierOpTime (OpTime x m) (OpTime y n) =
     Inr (if m \<noteq> - 1 \<and> n \<noteq> - 1 \<and> m \<noteq> n then toNumber m < toNumber n
          else isEarlierTimestamp x y)"
  by (simp add: isEarlierOpTime_def friendlyEqual_def)

lemma isEarlierTimestamp_irrefl: "\<not> isEarlierTimestamp x x"
  by (simp add: isEarlierTimestamp_def)

lemma isEarlierTimestamp_trans:
  "isEarlierTimestamp x y \<Longrightarrow> isEarlierTimestamp y z \<Longrightarrow> isEarlierTimestamp x z"
  by (auto simp: isEarlierTimestamp_def split: if_splits)

lemma isEarlierTimestamp_total:
  "isEarlierTimestamp x y \<or> x = y \<or> isEarlierTimestamp y x"
  by (cases x; cases y) (auto simp: isEarlierTimestamp_def)

lemma compare_OpTime:
  "compare (OpTime x m) (OpTime y n) =
     Inr (if m \<noteq> - 1 \<and> n \<noteq> - 1 \<and> m \<noteq> n
          then (if toNumber m < toNumber n then Earlier
                else if toNumber n < toNumber m then Later else Same)
          else if isEarlierTimestamp x y then Earlier
          else if isEarlierTimestamp y x then Later else Same)"
  by (auto simp: compare_def isEarlierOpTime_OpTime)

text \<open>Terms up to \<open>2^53\<close> in magnitude are told apart.\<close>

lemma toldApart_exact: "\<bar>m\<bar> \<le> 2 ^ 53 \<Longrightarrow> \<bar>n\<bar> \<le> 2 ^ 53 \<Longrightarrow> toldApart m n"
  by (simp add: toldApart_def toNumber_exact)

text \<open>
  Beyond \<open>2^53\<close> two different terms can be the same double, and then the two operation
  times compare as the same whatever their timestamps: "the same" is not transitive
  there.
\<close>

lemma compare_same_double_not_transitive:
  "compare (OpTime (Timestamp 1 0) 9007199254740992) (OpTime (Timestamp 1 0) 9007199254740993)
     = Inr Same
   \<and> compare (OpTime (Timestamp 1 0) 9007199254740993) (OpTime (Timestamp 2 0) 9007199254740992)
     = Inr Same
   \<and> compare (OpTime (Timestamp 1 0) 9007199254740992) (OpTime (Timestamp 2 0) 9007199254740992)
     = Inr Earlier"
  by (simp add: compare_OpTime toNumber_above toNumber_exact isEarlierTimestamp_def)

text \<open>
  C1 (the code departs from the claim). Two bare timestamps of the same non-zero second,
  values with no term field: the claim compares the timestamps, so \<open>(100, 1)\<close> is earlier
  than \<open>(100, 2)\<close>. The code keeps both values unwrapped, because their field \<^verbatim>\<open>t\<close>
  (the seconds) is truthy, takes the seconds for terms, finds them equal, and then reads
  the missing field \<^verbatim>\<open>ts\<close>: it throws instead of answering. With a document on one side
  the seconds of the bare timestamp are compared with the term of the document.
\<close>

theorem isEarlierOpTime_bare_timestamps_throw:
  "isEarlierOpTime (Bare (Timestamp 100 1)) (Bare (Timestamp 100 2)) = Inl TypeError
   \<and> isEarlierTimestamp (Timestamp 100 1) (Timestamp 100 2)
   \<and> isEarlierOpTime (OpTime (Timestamp 1 0) 5) (Bare (Timestamp 3 0)) = Inr False
   \<and> isEarlierTimestamp (Timestamp 1 0) (Timestamp 3 0)"
  by (simp add: isEarlierOpTime_def friendlyEqual_def isEarlierTimestamp_def toNumber_exact)

text \<open>
  C9 as stated fails: with a term of \<open>-1\<close> between two set terms the comparison is not
  transitive. \<open>a\<close> is earlier than \<open>b\<close> and \<open>b\<close> earlier than \<open>c\<close> by their
  timestamps, \<open>a\<close> is later than \<open>c\<close> by its term.
\<close>

theorem compare_not_transitive:
  "compare (OpTime (Timestamp 1 0) 5) (OpTime (Timestamp 2 0) (- 1)) = Inr Earlier
   \<and> compare (OpTime (Timestamp 2 0) (- 1)) (OpTime (Timestamp 3 0) 3) = Inr Earlier
   \<and> compare (OpTime (Timestamp 1 0) 5) (OpTime (Timestamp 3 0) 3) = Inr Later"
  by (simp add: compare_OpTime isEarlierTimestamp_def toNumber_exact)

text \<open>
  C9 (amended). On operation times that carry a term, \<open>compare\<close> always answers, is
  reflexive, and is antisymmetric on equal terms (equal terms and the answer \<open>Same\<close>
  make the two values the same). It is transitive for \<open>Earlier\<close> on every three
  operation times except those where one term is unset (\<open>-1\<close>) and the other two are
  set and differ: so whenever all three terms are set, whenever two or all of them are
  unset, and whenever the set ones are equal. There it is also transitive for \<open>Same\<close>
  and for "not later", provided that the comparison as doubles tells the first term
  from the second and the second from the third, as it does for all terms up to \<open>2^53\<close>
  in magnitude.
\<close>

theorem compare_total_preorder:
  "compare (OpTime x l) (OpTime x l) = Inr Same
   \<and> (\<exists>r. compare (OpTime x l) (OpTime y m) = Inr r)
   \<and> (compare (OpTime x l) (OpTime y l) = Inr Same \<longrightarrow> x = y)
   \<and> (\<not> unsetAmongDifferent l m n \<longrightarrow>
        (compare (OpTime x l) (OpTime y m) = Inr Earlier
           \<and> compare (OpTime y m) (OpTime z n) = Inr Earlier
         \<longrightarrow> compare (OpTime x l) (OpTime z n) = Inr Earlier)
      \<and> (toldApart l m \<and> toldApart m n \<longrightarrow>
           (compare (OpTime x l) (OpTime y m) = Inr Same
              \<and> compare (OpTime y m) (OpTime z n) = Inr Same
            \<longrightarrow> compare (OpTime x l) (OpTime z n) = Inr Same)
         \<and> (compare (OpTime x l) (OpTime y m) \<noteq> Inr Later
              \<and> compare (OpTime y m) (OpTime z n) \<noteq> Inr Later
            \<longrightarrow> compare (OpTime x l) (OpTime z n) \<noteq> Inr Later)))
   \<and> (\<bar>l\<bar> \<le> 2 ^ 53 \<and> \<bar>m\<bar> \<le> 2 ^ 53 \<longrightarrow> toldApart l m)"
proof (intro conjI impI)
  show "compare (OpTime x l) (OpTime x l) = Inr Same"
    by (simp add: compare_OpTime isEarlierTimestamp_irrefl)
  show "\<exists>r. compare (OpTime x l) (OpTime y m) = Inr r"
    by (simp add: compare_OpTime)
  show "x = y" if "compare (OpTime x l) (OpTime y l) = Inr Same"
    using that isEarlierTimestamp_total [of x y]
    by (auto simp: compare_OpTime split: if_splits)
  show "toldApart l m" if "\<bar>l\<bar> \<le> 2 ^ 53 \<and> \<bar>m\<bar> \<le> 2 ^ 53"
    using that by (simp add: toldApart_exact)
next
  assume mixed: "\<not> unsetAmongDifferent l m n"
  show "compare (OpTime x l) (OpTime z n) = Inr Earlier"
    if "compare (OpTime x l) (OpTime y m) = Inr Earlier
        \<and> compare (OpTime y m) (OpTime z n) = Inr Earlier"
    using that mixed
    by (auto simp: compare_OpTime unsetAmongDifferent_def split: if_splits
             dest: isEarlierTimestamp_trans)
next
  assume mixed: "\<not> unsetAmongDifferent l m n"
    and apart: "toldApart l m \<and> toldApart m n"
  show "compare (OpTime x l) (OpTime z n) = Inr Same"
    if "compare (OpTime x l) (OpTime y m) = Inr Same
        \<and> compare (OpTime y m) (OpTime z n) = Inr Same"
    using that mixed apart isEarlierTimestamp_total [of x y] isEarlierTimestamp_total [of y z]
    by (auto simp: compare_OpTime unsetAmongDifferent_def toldApart_def
          isEarlierTimestamp_irrefl split: if_splits)
next
  assume mixed: "\<not> unsetAmongDifferent l m n"
    and apart: "toldApart l m \<and> toldApart m n"
  show "compare (OpTime x l) (OpTime z n) \<noteq> Inr Later"
    if "compare (OpTime x l) (OpTime y m) \<noteq> Inr Later
        \<and> compare (OpTime y m) (OpTime z n) \<noteq> Inr Later"
    using that mixed apart isEarlierTimestamp_total [of x y] isEarlierTimestamp_total [of y z]
    by (auto simp: compare_OpTime unsetAmongDifferent_def toldApart_def
          isEarlierTimestamp_irrefl split: if_splits dest: isEarlierTimestamp_trans)
qed

text \<open>
  The theorem at three operation times of which the first and the third have no term
  set and the second has the term 2: each is earlier than the next by its timestamp,
  and the first is earlier than the third.
\<close>

theorem compare_total_preorder_witness:
  "\<not> unsetAmongDifferent (- 1) 2 (- 1) \<and> toldApart (- 1) 2 \<and> toldApart 2 (- 1)
   \<and> compare (OpTime (Timestamp 1 0) (- 1)) (OpTime (Timestamp 2 0) 2) = Inr Earlier
   \<and> compare (OpTime (Timestamp 2 0) 2) (OpTime (Timestamp 3 0) (- 1)) = Inr Earlier
   \<and> compare (OpTime (Timestamp 1 0) (- 1)) (OpTime (Timestamp 3 0) (- 1)) = Inr Earlier
   \<and> compare (OpTime (Timestamp 1 0) (- 1)) (OpTime (Timestamp 3 0) (- 1)) \<noteq> Inr Later"
proof -
  have mixed: "\<not> unsetAmongDifferent (- 1) 2 (- 1)"
    by (simp add: unsetAmongDifferent_def)
  have apart: "toldApart (- 1) 2 \<and> toldApart 2 (- 1)"
    by (simp add: toldApart_def)
  have ab: "compare (OpTime (Timestamp 1 0) (- 1)) (OpTime (Timestamp 2 0) 2) = Inr Earlier"
    by (simp add: compare_OpTime isEarlierTimestamp_def)
  have bc: "compare (OpTime (Timestamp 2 0) 2) (OpTime (Timestamp 3 0) (- 1)) = Inr Earlier"
    by (simp add: compare_OpTime isEarlierTimestamp_def)
  have "compare (OpTime (Timestamp 1 0) (- 1)) (OpTime (Timestamp 3 0) (- 1)) = Inr Earlier
      \<and> compare (OpTime (Timestamp 1 0) (- 1)) (OpTime (Timestamp 3 0) (- 1)) \<noteq> Inr Later"
    using ab bc mixed apart
      compare_total_preorder
        [of "Timestamp 1 0" "- 1" "Timestamp 2 0" 2 "- 1" "Timestamp 3 0"]
    by simp
  with ab bc mixed apart show ?thesis by simp
qed

text \<open>
  C10. The constructor stores the five minutes in \<^verbatim>\<open>kDefaultTimeoutMs\<close>; every wait
  reads \<^verbatim>\<open>kDefaultTimeoutMS\<close>, which is never assigned. With the timeout omitted, the
  effective timeout of each wait is \<^verbatim>\<open>undefined\<close>, not the stored default.
\<close>

theorem omitted_timeout_is_undefined:
  "ReplSetTest ''kDefaultTimeoutMs'' = Num 300000
   \<and> ReplSetTest ''kDefaultTimeoutMS'' = Undefined
   \<and> waitForIndicator_timeout ReplSetTest Undefined = Undefined
   \<and> awaitSecondaryNodes_timeout ReplSetTest Undefined = Undefined
   \<and> awaitNodesAgreeOnPrimary_timeout ReplSetTest Undefined = Undefined
   \<and> getPrimary_timeout ReplSetTest Undefined = Undefined
   \<and> awaitNoPrimary_timeout ReplSetTest Undefined = Undefined
   \<and> awaitReplication_timeout ReplSetTest Undefined = Undefined
   \<and> initiate_timeout ReplSetTest Undefined = Undefined"
  by (simp add: ReplSetTest_def method_names_def field_names_def effectiveTimeout_def or_else_def
      waitForIndicator_timeout_def awaitSecondaryNodes_timeout_def
      awaitNodesAgreeOnPrimary_timeout_def getPrimary_timeout_def awaitNoPrimary_timeout_def
      awaitReplication_timeout_def initiate_timeout_def)

section \<open>Properties of the leadership scan\<close>

lemma visit_pair:
  "visit f x (tp, live) =
     (case f x of
        Inl err \<Rightarrow> (tp, live)
      | Inr True \<Rightarrow>
         (case master live of
            Some m \<Rightarrow> (True, live)
          | None \<Rightarrow> (tp, live\<lparr>master := Some x\<rparr>))
      | Inr False \<Rightarrow> (tp, live\<lparr>slaves := slaves live @ [x]\<rparr>))"
  by (simp add: visit_def)

text \<open>
  The state of the scan after a prefix of the members: the flag is set once a second
  member has answered \<^verbatim>\<open>ismaster\<close>, the master is the first member that did, and the
  slaves are the members that answered otherwise.
\<close>

lemma fold_visit:
  "fold (visit f) xs (tp, live) =
     (tp \<or> (if master live = None then 1 else 0) < length (filter (\<lambda>n. f n = Inr True) xs),
      live\<lparr>master := (case master live of
                        Some m \<Rightarrow> Some m
                      | None \<Rightarrow> (case filter (\<lambda>n. f n = Inr True) xs of
                                   [] \<Rightarrow> None | c # cs \<Rightarrow> Some c)),
            slaves := slaves live @ filter (\<lambda>n. f n = Inr False) xs\<rparr>)"
proof (induction xs arbitrary: tp live)
  case Nil
  then show ?case by (simp split: option.splits)
next
  case (Cons x xs)
  show ?case
  proof (cases "f x")
    case (Inl e)
    then show ?thesis by (simp add: visit_pair Cons.IH split: option.splits)
  next
    case (Inr b)
    then show ?thesis
      by (cases b; cases "master live")
         (auto simp: visit_pair Cons.IH split: list.splits option.splits)
  qed
qed

lemma callIsMaster_result:
  "fst (callIsMaster f nodes) =
     (case filter (\<lambda>n. f n = Inr True) nodes of [c] \<Rightarrow> Some c | _ \<Rightarrow> None)"
  by (auto simp: callIsMaster_def fold_visit clearLiveNodes_def split: list.splits)

text \<open>
  The field \<^verbatim>\<open>self.liveNodes.master\<close> is not cleared when two members claim: it keeps
  the first claimant, while the returned value is \<^verbatim>\<open>false\<close>.
\<close>

lemma callIsMaster_liveNodes_master:
  "master (snd (callIsMaster f nodes)) =
     (case filter (\<lambda>n. f n = Inr True) nodes of [] \<Rightarrow> None | c # cs \<Rightarrow> Some c)"
  by (auto simp: callIsMaster_def fold_visit clearLiveNodes_def split: list.splits)

text \<open>
  C8 as stated fails: the view that the scan leaves is not without a leader. Of three
  members the first two answer \<^verbatim>\<open>ismaster: true\<close>, the third does not. The scan returns
  no primary, but \<^verbatim>\<open>self.liveNodes.master\<close> holds the first member.
\<close>

theorem callIsMaster_keeps_first_claimant:
  "fst (callIsMaster (\<lambda>n. if n < 2 then Inr True else Inr False) [0, 1, 2 :: nat]) = None
   \<and> master (snd (callIsMaster (\<lambda>n. if n < 2 then Inr True else Inr False) [0, 1, 2 :: nat]))
       = Some 0
   \<and> slaves (snd (callIsMaster (\<lambda>n. if n < 2 then Inr True else Inr False) [0, 1, 2 :: nat]))
       = [2]"
  by (simp add: callIsMaster_def visit_def clearLiveNodes_def)

text \<open>
  C8 (amended). When more than one member reports itself primary in a scan,
  \<^verbatim>\<open>_callIsMaster\<close> returns no primary (\<^verbatim>\<open>false\<close>); whenever it returns a primary, that
  member is the only one that reported itself primary, and it returns the member
  whenever exactly one did. The field \<^verbatim>\<open>self.liveNodes.master\<close> that the scan leaves is
  the first member, in the order of the scan, that reported itself primary, also when
  several did.
\<close>

theorem callIsMaster_two_primaries:
  "(1 < length (filter (\<lambda>n. ismaster n = Inr True) nodes)
      \<longrightarrow> fst (callIsMaster ismaster nodes) = None)
   \<and> (fst (callIsMaster ismaster nodes) = Some p
      \<longrightarrow> filter (\<lambda>n. ismaster n = Inr True) nodes = [p])
   \<and> fst (callIsMaster ismaster nodes) =
       (case filter (\<lambda>n. ismaster n = Inr True) nodes of [c] \<Rightarrow> Some c | _ \<Rightarrow> None)
   \<and> master (snd (callIsMaster ismaster nodes)) =
       (case filter (\<lambda>n. ismaster n = Inr True) nodes of [] \<Rightarrow> None | c # cs \<Rightarrow> Some c)"
proof (intro conjI)
  show "1 < length (filter (\<lambda>n. ismaster n = Inr True) nodes)
      \<longrightarrow> fst (callIsMaster ismaster nodes) = None"
    by (auto simp: callIsMaster_result split: list.splits)
  show "fst (callIsMaster ismaster nodes) = Some p
      \<longrightarrow> filter (\<lambda>n. ismaster n = Inr True) nodes = [p]"
    by (auto simp: callIsMaster_result split: list.splits)
  show "fst (callIsMaster ismaster nodes) =
       (case filter (\<lambda>n. ismaster n = Inr True) nodes of [c] \<Rightarrow> Some c | _ \<Rightarrow> None)"
    by (rule callIsMaster_result)
  show "master (snd (callIsMaster ismaster nodes)) =
       (case filter (\<lambda>n. ismaster n = Inr True) nodes of [] \<Rightarrow> None | c # cs \<Rightarrow> Some c)"
    by (rule callIsMaster_liveNodes_master)
qed

text \<open>
  Three members. When the first two answer \<^verbatim>\<open>ismaster: true\<close> and the third does not,
  the scan returns no primary. When only the second does, the scan returns it, and it
  is the only member that reported itself primary.
\<close>

theorem callIsMaster_two_primaries_witness:
  "1 < length (filter (\<lambda>n. (if n < 2 then Inr True else Inr False) = (Inr True :: error + bool))
                 [0, 1, 2 :: nat])
   \<and> fst (callIsMaster (\<lambda>n. if n < 2 then Inr True else Inr False) [0, 1, 2 :: nat]) = None
   \<and> fst (callIsMaster (\<lambda>n. if n = 1 then Inr True else Inr False) [0, 1, 2 :: nat]) = Some 1
   \<and> filter (\<lambda>n. (if n = 1 then Inr True else Inr False) = (Inr True :: error + bool))
         [0, 1, 2 :: nat] = [1]"
proof -
  have two: "1 < length (filter (\<lambda>n. (if n < 2 then Inr True else Inr False)
                = (Inr True :: error + bool)) [0, 1, 2 :: nat])"
    by simp
  have one: "fst (callIsMaster (\<lambda>n. if n = 1 then Inr True else Inr False) [0, 1, 2 :: nat])
               = Some 1"
    by (simp add: callIsMaster_def visit_def clearLiveNodes_def)
  from two one show ?thesis
    using callIsMaster_two_primaries
      [of "\<lambda>n. if n < 2 then Inr True else Inr False" "[0, 1, 2 :: nat]"]
      callIsMaster_two_primaries
      [of "\<lambda>n. if n = 1 then Inr True else Inr False" "[0, 1, 2 :: nat]" 1]
    by blast
qed

section \<open>Properties of the oplog check\<close>

lemma findLargestTS_null:
  "findLargestTS None (node # nodes) =
     (case node of [] \<Rightarrow> Inl CursorExhausted | d # ds \<Rightarrow> Inl TypeError)"
  by (simp add: getFirstDoc_ts_def split: list.splits)

text \<open>
  On two or more members the check never succeeds: the first comparison reads a field
  of \<^verbatim>\<open>largestTS\<close>, which is still \<^verbatim>\<open>null\<close>.
\<close>

lemma ensureOplogsMatch_two_or_more:
  "1 < length nodes \<Longrightarrow>
     ensureOplogsMatch nodes = Inl (if hd nodes = [] then CursorExhausted else TypeError)"
  by (cases nodes)
     (simp_all add: ensureOplogsMatch_def findLargestTS_null del: findLargestTS.simps
        split: list.splits)

lemma ensureOplogsMatch_at_most_one:
  "length nodes \<le> 1 \<Longrightarrow> ensureOplogsMatch nodes = Inr ()"
  by (simp add: ensureOplogsMatch_def)

text \<open>
  C5 (the code departs from the claim). Two members with the identical log of two
  entries: the claim says the check succeeds; the code throws a TypeError in the first
  round of the search for the common starting point. Only the single-member case is as
  the claim says.
\<close>

theorem ensureOplogsMatch_identical_logs_throw:
  "ensureOplogsMatch (replicate 2 [Timestamp 1 1, Timestamp 1 2]) = Inl TypeError
   \<and> ensureOplogsMatch (replicate 1 [Timestamp 1 1, Timestamp 1 2]) = Inr ()"
  by (simp add: ensureOplogsMatch_def getFirstDoc_ts_def numeral_2_eq_2)

section \<open>Properties of the collection dump\<close>

lemma dumpLoop_done: "dumpLoop P S (- 1) (- 1) out = out"
  by (simp add: dumpLoop.simps)

lemma dumpLoop_equal_run:
  "(\<forall>j < k. P ! (a + j) = S ! (b + j)) \<Longrightarrow>
   dumpLoop P S (int (a + k) - 1) (int (b + k) - 1) out
     = dumpLoop P S (int a - 1) (int b - 1) out"
proof (induction k)
  case 0
  then show ?case by simp
next
  case (Suc k)
  have eq: "P ! (a + k) = S ! (b + k)" using Suc.prems by simp
  have "dumpLoop P S (int (a + Suc k) - 1) (int (b + Suc k) - 1) out
          = dumpLoop P S (int (a + k) - 1) (int (b + k) - 1) out"
    by (subst dumpLoop.simps) (simp add: eq bsonBinaryEqual_def nat_add_distrib)
  then show ?case using Suc by simp
qed

lemma dumpLoop_extra_on_secondary:
  assumes "ys \<noteq> [] \<longrightarrow> doc_id (last ys) < doc_id d"
  shows "dumpLoop (ys @ zs) (ys @ d # zs) (int (length (ys @ zs)) - 1)
           (int (length (ys @ d # zs)) - 1) out
         = out\<lparr>mismatching := mismatching out @ (if ys = [] then [] else [(last ys, d)]),
               missingOnPrimary := missingOnPrimary out @ [d]\<rparr>"
proof -
  let ?P = "ys @ zs" and ?S = "ys @ d # zs"
  let ?n = "length ys"
  have "dumpLoop ?P ?S (int (?n + length zs) - 1) (int (Suc ?n + length zs) - 1) out
          = dumpLoop ?P ?S (int ?n - 1) (int (Suc ?n) - 1) out"
    by (rule dumpLoop_equal_run) (simp add: nth_append)
  moreover have "dumpLoop ?P ?S (int ?n - 1) (int (Suc ?n) - 1) out
          = dumpLoop ?P ?S (int ?n - 1) (int ?n - 1)
              (out\<lparr>mismatching := mismatching out @ (if ys = [] then [] else [(last ys, d)]),
                    missingOnPrimary := missingOnPrimary out @ [d]\<rparr>)"
  proof (cases "ys = []")
    case True
    then show ?thesis by (subst dumpLoop.simps) simp
  next
    case False
    then have lt: "doc_id (last ys) < doc_id d" using assms by simp
    have p: "?P ! nat (int ?n - 1) = last ys"
      using False by (simp add: nth_append last_conv_nth nat_diff_distrib')
    have s: "?S ! ?n = d" by simp
    show ?thesis
      using False lt
      by (subst dumpLoop.simps) (auto simp: p bsonBinaryEqual_def bsonWoCompare_def)
  qed
  moreover have "dumpLoop ?P ?S (int (0 + ?n) - 1) (int (0 + ?n) - 1) r
                   = dumpLoop ?P ?S (int 0 - 1) (int 0 - 1) r" for r
    by (rule dumpLoop_equal_run) (simp add: nth_append)
  ultimately show ?thesis by (simp add: dumpLoop_done)
qed

lemma sorted_split_at:
  "sorted (map f xs) \<Longrightarrow> xs = filter (\<lambda>x. f x < c) xs @ filter (\<lambda>x. \<not> f x < c) xs"
proof (induction xs)
  case Nil
  then show ?case by simp
next
  case (Cons x xs)
  show ?case
  proof (cases "f x < c")
    case True
    then show ?thesis using Cons by simp
  next
    case False
    then have "\<forall>y\<in>set xs. \<not> f y < c" using Cons.prems by fastforce
    then have "filter (\<lambda>x. f x < c) xs = []" "filter (\<lambda>x. \<not> f x < c) xs = xs"
      by (simp_all add: filter_empty_conv filter_id_conv)
    then show ?thesis using False by simp
  qed
qed

lemma sorted_with_extra:
  fixes f :: "'a \<Rightarrow> 'k::linorder"
  assumes P: "sorted (map f P)" "distinct (map f P)"
    and S: "sorted (map f S)" "distinct (map f S)"
    and set: "set S = insert d (set P)" and new: "d \<notin> set P"
  shows "S = filter (\<lambda>x. f x < f d) P @ d # filter (\<lambda>x. \<not> f x < f d) P"
proof -
  let ?ys = "filter (\<lambda>x. f x < f d) P" and ?zs = "filter (\<lambda>x. \<not> f x < f d) P"
  have inj: "inj_on f (set S)" using S(2) by (simp add: distinct_map)
  have fresh: "f x \<noteq> f d" if "x \<in> set P" for x
    using inj that new set by (auto simp: inj_on_def)
  have split: "P = ?ys @ ?zs" using P(1) by (rule sorted_split_at)
  have "sorted (map f (?ys @ ?zs))" using P(1) split by simp
  then have sorted: "sorted (map f (?ys @ d # ?zs))"
    using fresh by (auto simp: sorted_append less_le)
  have "distinct (map f (?ys @ ?zs))" using P(2) split by simp
  then have distinct: "distinct (map f (?ys @ d # ?zs))"
    using fresh by (auto simp: image_iff) metis+
  have sets: "set S = set (?ys @ d # ?zs)" using set by auto
  show ?thesis
    by (rule map_sorted_distinct_set_unique [of f])
       (use inj sets S sorted distinct in \<open>simp_all only: Un_absorb\<close>)
qed

text \<open>
  The loop on the two arrays and their indices is the three-way merge of the reversed
  arrays up to the indices.
\<close>

lemma rev_take_index:
  "0 \<le> i \<Longrightarrow> i < int (length xs) \<Longrightarrow>
     rev (take (nat (i + 1)) xs) = xs ! nat i # rev (take (nat (i - 1 + 1)) xs)"
proof -
  assume "0 \<le> i" "i < int (length xs)"
  then have "nat i < length xs" and "nat (i + 1) = Suc (nat i)" by auto
  then show ?thesis by (simp add: take_Suc_conv_app_nth)
qed

lemma dumpLoop_threeWayMerge:
  "pi < int (length P) \<Longrightarrow> si < int (length S) \<Longrightarrow>
     dumpLoop P S pi si out
       = threeWayMerge (rev (take (nat (pi + 1)) P)) (rev (take (nat (si + 1)) S)) out"
proof (induction P S pi si out rule: dumpLoop.induct)
  case (1 P S pi si out)
  let ?p = "P ! nat pi" and ?s = "S ! nat si"
  let ?Pk = "\<lambda>i. rev (take (nat (i + 1)) P)" and ?Sk = "\<lambda>i. rev (take (nat (i + 1)) S)"
  have TP: "?Pk pi = ?p # ?Pk (pi - 1)" if "0 \<le> pi"
    using rev_take_index [OF that "1.prems"(1)] .
  have TS: "?Sk si = ?s # ?Sk (si - 1)" if "0 \<le> si"
    using rev_take_index [OF that "1.prems"(2)] .
  have EP: "?Pk pi = []" if "pi < 0" using that by simp
  have ES: "?Sk si = []" if "si < 0" using that by simp
  consider (fin) "pi < 0" "si < 0"
    | (noP) "pi < 0" "0 \<le> si"
    | (noS) "0 \<le> pi" "si < 0"
    | (same) "0 \<le> pi" "0 \<le> si" "?p = ?s"
    | (content) "0 \<le> pi" "0 \<le> si" "?p \<noteq> ?s" "doc_id ?p = doc_id ?s"
    | (less) "0 \<le> pi" "0 \<le> si" "doc_id ?p < doc_id ?s"
    | (greater) "0 \<le> pi" "0 \<le> si" "doc_id ?s < doc_id ?p"
    by (metis linorder_less_linear not_le)
  then show ?case
  proof cases
    case fin
    then show ?thesis by (simp add: dumpLoop.simps)
  next
    case noP
    let ?out = "out\<lparr>missingOnPrimary := missingOnPrimary out @ [?s]\<rparr>"
    have step: "dumpLoop P S pi si out = dumpLoop P S pi (si - 1) ?out"
      using noP by (subst dumpLoop.simps) simp
    have ih: "dumpLoop P S pi (si - 1) ?out = threeWayMerge (?Pk pi) (?Sk (si - 1)) ?out"
      using "1.IH"(1) noP "1.prems" by simp
    show ?thesis
      unfolding step ih TS [OF noP(2)] EP [OF noP(1)] by simp
  next
    case noS
    let ?out = "out\<lparr>missingOnSecondary := missingOnSecondary out @ [?p]\<rparr>"
    have step: "dumpLoop P S pi si out = dumpLoop P S (pi - 1) si ?out"
      using noS by (subst dumpLoop.simps) simp
    have ih: "dumpLoop P S (pi - 1) si ?out = threeWayMerge (?Pk (pi - 1)) (?Sk si) ?out"
      using "1.IH"(2) noS "1.prems" by simp
    show ?thesis
      unfolding step ih TP [OF noS(1)] ES [OF noS(2)] by simp
  next
    case same
    have step: "dumpLoop P S pi si out = dumpLoop P S (pi - 1) (si - 1) out"
      using same by (subst dumpLoop.simps) (simp add: bsonBinaryEqual_def)
    have ih: "dumpLoop P S (pi - 1) (si - 1) out
                = threeWayMerge (?Pk (pi - 1)) (?Sk (si - 1)) out"
      using "1.IH"(6) same "1.prems" by (simp add: bsonBinaryEqual_def)
    show ?thesis
      unfolding step ih TP [OF same(1)] TS [OF same(2)] using same(3) by simp
  next
    case content
    let ?out = "out\<lparr>mismatching := mismatching out @ [(?p, ?s)]\<rparr>"
    have step: "dumpLoop P S pi si out = dumpLoop P S (pi - 1) (si - 1) ?out"
      using content by (subst dumpLoop.simps) (simp add: bsonBinaryEqual_def bsonWoCompare_def)
    have ih: "dumpLoop P S (pi - 1) (si - 1) ?out
                = threeWayMerge (?Pk (pi - 1)) (?Sk (si - 1)) ?out"
      using "1.IH"(3) content "1.prems" by (simp add: bsonBinaryEqual_def bsonWoCompare_def)
    show ?thesis
      unfolding step ih TP [OF content(1)] TS [OF content(2)] using content(3,4) by simp
  next
    case less
    let ?out = "out\<lparr>mismatching := mismatching out @ [(?p, ?s)],
                    missingOnPrimary := missingOnPrimary out @ [?s]\<rparr>"
    have ne: "?p \<noteq> ?s" "doc_id ?p \<noteq> doc_id ?s" using less(3) by auto
    have step: "dumpLoop P S pi si out = dumpLoop P S pi (si - 1) ?out"
      using less ne by (subst dumpLoop.simps) (simp add: bsonBinaryEqual_def bsonWoCompare_def)
    have ih: "dumpLoop P S pi (si - 1) ?out = threeWayMerge (?Pk pi) (?Sk (si - 1)) ?out"
      using "1.IH"(4) less ne "1.prems" by (simp add: bsonBinaryEqual_def bsonWoCompare_def)
    have unfold: "threeWayMerge (?p # ?Pk (pi - 1)) (?s # ?Sk (si - 1)) out
                    = threeWayMerge (?p # ?Pk (pi - 1)) (?Sk (si - 1)) ?out"
      using ne less(3) by simp
    show ?thesis
      unfolding step ih TS [OF less(2)] using unfold TP [OF less(1)] by simp
  next
    case greater
    let ?out = "out\<lparr>mismatching := mismatching out @ [(?p, ?s)],
                    missingOnSecondary := missingOnSecondary out @ [?p]\<rparr>"
    have ne: "?p \<noteq> ?s" "\<not> doc_id ?p < doc_id ?s" "doc_id ?p \<noteq> doc_id ?s"
      using greater(3) by auto
    have step: "dumpLoop P S pi si out = dumpLoop P S (pi - 1) si ?out"
      using greater ne
      by (subst dumpLoop.simps) (simp add: bsonBinaryEqual_def bsonWoCompare_def)
    have ih: "dumpLoop P S (pi - 1) si ?out = threeWayMerge (?Pk (pi - 1)) (?Sk si) ?out"
      using "1.IH"(5) greater ne "1.prems"
      by (simp add: bsonBinaryEqual_def bsonWoCompare_def)
    have unfold: "threeWayMerge (?p # ?Pk (pi - 1)) (?s # ?Sk (si - 1)) out
                    = threeWayMerge (?Pk (pi - 1)) (?s # ?Sk (si - 1)) ?out"
      using ne by simp
    show ?thesis
      unfolding step ih TP [OF greater(1)] using unfold TS [OF greater(2)] by simp
  qed
qed

lemma dumpCollectionDiff_threeWayMerge:
  "dumpCollectionDiff primaryColl secondaryColl =
     threeWayMerge (rev (sort_key doc_id primaryColl)) (rev (sort_key doc_id secondaryColl))
       \<lparr>mismatching = [], missingOnPrimary = [], missingOnSecondary = []\<rparr>"
  using dumpLoop_threeWayMerge
    [of "int (length (sort_key doc_id primaryColl)) - 1" "sort_key doc_id primaryColl"
        "int (length (sort_key doc_id secondaryColl)) - 1" "sort_key doc_id secondaryColl"]
  by (simp add: dumpCollectionDiff_def Let_def)

text \<open>
  On lists in strictly descending order of the keys, the merge records as missing on
  one side exactly the documents of the other side whose key the side does not have,
  in the order of the walk.
\<close>

lemma threeWayMerge_missing:
  fixes ps ss :: "('k::linorder, 'b) document list"
  shows "sorted_wrt (>) (map doc_id ps) \<Longrightarrow> sorted_wrt (>) (map doc_id ss) \<Longrightarrow>
     missingOnPrimary (threeWayMerge ps ss out)
       = missingOnPrimary out @ filter (\<lambda>s. doc_id s \<notin> doc_id ` set ps) ss
     \<and> missingOnSecondary (threeWayMerge ps ss out)
       = missingOnSecondary out @ filter (\<lambda>p. doc_id p \<notin> doc_id ` set ss) ps"
proof (induction ps ss out rule: threeWayMerge.induct)
  case (1 out)
  then show ?case by simp
next
  case (2 s ss out)
  then show ?case by simp
next
  case (3 p ps out)
  then show ?case by simp
next
  case (4 p ps s ss out)
  have P: "\<forall>x\<in>set ps. doc_id x < doc_id p" and sp: "sorted_wrt (>) (map doc_id ps)"
    using "4.prems"(1) by (simp_all add: sorted_wrt_map)
  have S: "\<forall>x\<in>set ss. doc_id x < doc_id s" and ss: "sorted_wrt (>) (map doc_id ss)"
    using "4.prems"(2) by (simp_all add: sorted_wrt_map)
  consider (same) "p = s" | (content) "p \<noteq> s" "doc_id p = doc_id s"
    | (less) "doc_id p < doc_id s" | (greater) "doc_id s < doc_id p"
    by (metis linorder_less_linear)
  then show ?case
  proof cases
    case same
    have f1: "filter (\<lambda>x. doc_id x \<notin> doc_id ` set (p # ps)) ss
                = filter (\<lambda>x. doc_id x \<notin> doc_id ` set ps) ss"
      using S same by (intro filter_cong) auto
    have f2: "filter (\<lambda>x. doc_id x \<notin> doc_id ` set (s # ss)) ps
                = filter (\<lambda>x. doc_id x \<notin> doc_id ` set ss) ps"
      using P same by (intro filter_cong) auto
    show ?thesis
      using "4.IH"(1) [OF same sp ss] same f1 f2 by simp
  next
    case content
    have f1: "filter (\<lambda>x. doc_id x \<notin> doc_id ` set (p # ps)) ss
                = filter (\<lambda>x. doc_id x \<notin> doc_id ` set ps) ss"
      using S content by (intro filter_cong) auto
    have f2: "filter (\<lambda>x. doc_id x \<notin> doc_id ` set (s # ss)) ps
                = filter (\<lambda>x. doc_id x \<notin> doc_id ` set ss) ps"
      using P content by (intro filter_cong) auto
    show ?thesis
      using "4.IH"(2) [OF content sp ss] content f1 f2 by simp
  next
    case less
    then have ne: "p \<noteq> s" "doc_id p \<noteq> doc_id s" by auto
    have new: "doc_id s \<notin> doc_id ` set (p # ps)"
      using P less by (auto simp: image_iff)
    have f2: "filter (\<lambda>x. doc_id x \<notin> doc_id ` set (s # ss)) (p # ps)
                = filter (\<lambda>x. doc_id x \<notin> doc_id ` set ss) (p # ps)"
      using P less by (intro filter_cong) auto
    show ?thesis
      using "4.IH"(3) [OF ne less "4.prems"(1) ss] ne less new f2 by simp
  next
    case greater
    then have ne: "p \<noteq> s" "doc_id p \<noteq> doc_id s" "\<not> doc_id p < doc_id s" by auto
    have new: "doc_id p \<notin> doc_id ` set (s # ss)"
      using S greater by (auto simp: image_iff)
    have f1: "filter (\<lambda>x. doc_id x \<notin> doc_id ` set (p # ps)) (s # ss)
                = filter (\<lambda>x. doc_id x \<notin> doc_id ` set ps) (s # ss)"
      using S greater by (intro filter_cong) auto
    show ?thesis
      using "4.IH"(4) [OF ne sp "4.prems"(2)] ne new f1 by simp
  qed
qed

lemma reported_Nil: "reported [] S = {}" "reported P [] = {}"
  by (simp_all add: reported_def)

lemma reported_same:
  assumes "\<forall>x\<in>set ps. doc_id x < doc_id p" "\<forall>x\<in>set ss. doc_id x < doc_id s"
    and "doc_id p = doc_id s"
  shows "reported (p # ps) (s # ss) = (if p = s then {} else {(p, s)}) \<union> reported ps ss"
  using assms unfolding reported_def nextBelow_def
  by (auto simp: image_iff)

lemma reported_less:
  assumes "\<forall>x\<in>set ps. doc_id x < doc_id p" "\<forall>x\<in>set ss. doc_id x < doc_id s"
    and "doc_id p < doc_id s"
  shows "reported (p # ps) (s # ss) = insert (p, s) (reported (p # ps) ss)"
  using assms unfolding reported_def nextBelow_def
  by (auto simp: image_iff) (metis less_irrefl less_le_not_le less_trans)+

lemma reported_greater:
  assumes "\<forall>x\<in>set ps. doc_id x < doc_id p" "\<forall>x\<in>set ss. doc_id x < doc_id s"
    and "doc_id s < doc_id p"
  shows "reported (p # ps) (s # ss) = insert (p, s) (reported ps (s # ss))"
  using assms unfolding reported_def nextBelow_def
  by (auto simp: image_iff) (metis less_irrefl less_le_not_le less_trans)+

text \<open>
  On such lists the pairs that the merge reports as mismatching are the pairs
  \<open>reported\<close>, in strictly descending order of their larger keys.
\<close>

lemma reported_keys:
  "x \<in> reported P S \<Longrightarrow> \<forall>d\<in>set P. doc_id d < k \<Longrightarrow> \<forall>d\<in>set S. doc_id d < k \<Longrightarrow>
     pairKey x < k"
  by (auto simp: reported_def pairKey_def)

lemma reported_below:
  "set xs = reported P S \<Longrightarrow> \<forall>d\<in>set P. doc_id d < k \<Longrightarrow> \<forall>d\<in>set S. doc_id d < k \<Longrightarrow>
     \<forall>x\<in>set xs. pairKey x < k"
  using reported_keys by blast

lemma threeWayMerge_mismatching:
  fixes ps ss :: "('k::linorder, 'b) document list"
  shows "sorted_wrt (>) (map doc_id ps) \<Longrightarrow> sorted_wrt (>) (map doc_id ss) \<Longrightarrow>
     \<exists>xs. mismatching (threeWayMerge ps ss out) = mismatching out @ xs
        \<and> set xs = reported ps ss \<and> sorted_wrt (>) (map pairKey xs)"
proof (induction ps ss out rule: threeWayMerge.induct)
  case (1 out)
  then show ?case by (simp add: reported_Nil)
next
  case (2 s ss out)
  then show ?case by (simp add: reported_Nil sorted_wrt_map)
next
  case (3 p ps out)
  then show ?case by (simp add: reported_Nil sorted_wrt_map)
next
  case (4 p ps s ss out)
  have P: "\<forall>x\<in>set ps. doc_id x < doc_id p" and sp: "sorted_wrt (>) (map doc_id ps)"
    using "4.prems"(1) by (simp_all add: sorted_wrt_map)
  have S: "\<forall>x\<in>set ss. doc_id x < doc_id s" and ss: "sorted_wrt (>) (map doc_id ss)"
    using "4.prems"(2) by (simp_all add: sorted_wrt_map)
  consider (same) "p = s" | (content) "p \<noteq> s" "doc_id p = doc_id s"
    | (less) "doc_id p < doc_id s" | (greater) "doc_id s < doc_id p"
    by (metis linorder_less_linear)
  then show ?case
  proof cases
    case same
    from "4.IH"(1) [OF same sp ss] obtain xs where
      xs: "mismatching (threeWayMerge ps ss out) = mismatching out @ xs"
        "set xs = reported ps ss" "sorted_wrt (>) (map pairKey xs)"
      by blast
    have "reported (p # ps) (s # ss) = reported ps ss"
      using reported_same [OF P S] same by simp
    with xs same show ?thesis by auto
  next
    case content
    let ?out = "out\<lparr>mismatching := mismatching out @ [(p, s)]\<rparr>"
    from "4.IH"(2) [OF content sp ss] obtain xs where
      xs: "mismatching (threeWayMerge ps ss ?out) = mismatching ?out @ xs"
        "set xs = reported ps ss" "sorted_wrt (>) (map pairKey xs)"
      by blast
    have r: "reported (p # ps) (s # ss) = insert (p, s) (reported ps ss)"
      using reported_same [OF P S content(2)] content(1) by simp
    have key: "pairKey (p, s) = doc_id p" using content(2) by (simp add: pairKey_def)
    have "\<forall>d\<in>set ss. doc_id d < doc_id p" using S content(2) by simp
    then have below: "\<forall>x\<in>set xs. pairKey x < pairKey (p, s)"
      unfolding key by (rule reported_below [OF xs(2) P])
    have "mismatching (threeWayMerge (p # ps) (s # ss) out) = mismatching out @ (p, s) # xs
        \<and> set ((p, s) # xs) = reported (p # ps) (s # ss)
        \<and> sorted_wrt (>) (map pairKey ((p, s) # xs))"
      using xs r below content by simp
    then show ?thesis by blast
  next
    case less
    then have ne: "p \<noteq> s" "doc_id p \<noteq> doc_id s" by auto
    let ?out = "out\<lparr>mismatching := mismatching out @ [(p, s)],
                    missingOnPrimary := missingOnPrimary out @ [s]\<rparr>"
    from "4.IH"(3) [OF ne less "4.prems"(1) ss] obtain xs where
      xs: "mismatching (threeWayMerge (p # ps) ss ?out) = mismatching ?out @ xs"
        "set xs = reported (p # ps) ss" "sorted_wrt (>) (map pairKey xs)"
      by blast
    have r: "reported (p # ps) (s # ss) = insert (p, s) (reported (p # ps) ss)"
      using reported_less [OF P S less] .
    have key: "pairKey (p, s) = doc_id s" using less by (auto simp: pairKey_def max_def)
    have "\<forall>d\<in>set (p # ps). doc_id d < doc_id s" using P less by auto
    then have below: "\<forall>x\<in>set xs. pairKey x < pairKey (p, s)"
      unfolding key using S by (rule reported_below [OF xs(2)])
    have "mismatching (threeWayMerge (p # ps) (s # ss) out) = mismatching out @ (p, s) # xs
        \<and> set ((p, s) # xs) = reported (p # ps) (s # ss)
        \<and> sorted_wrt (>) (map pairKey ((p, s) # xs))"
      using xs r below ne less by simp
    then show ?thesis by blast
  next
    case greater
    then have ne: "p \<noteq> s" "doc_id p \<noteq> doc_id s" "\<not> doc_id p < doc_id s" by auto
    let ?out = "out\<lparr>mismatching := mismatching out @ [(p, s)],
                    missingOnSecondary := missingOnSecondary out @ [p]\<rparr>"
    from "4.IH"(4) [OF ne sp "4.prems"(2)] obtain xs where
      xs: "mismatching (threeWayMerge ps (s # ss) ?out) = mismatching ?out @ xs"
        "set xs = reported ps (s # ss)" "sorted_wrt (>) (map pairKey xs)"
      by blast
    have r: "reported (p # ps) (s # ss) = insert (p, s) (reported ps (s # ss))"
      using reported_greater [OF P S greater] .
    have key: "pairKey (p, s) = doc_id p" using greater by (auto simp: pairKey_def max_def)
    have "\<forall>d\<in>set (s # ss). doc_id d < doc_id p" using S greater by auto
    then have below: "\<forall>x\<in>set xs. pairKey x < pairKey (p, s)"
      unfolding key by (rule reported_below [OF xs(2) P])
    have "mismatching (threeWayMerge (p # ps) (s # ss) out) = mismatching out @ (p, s) # xs
        \<and> set ((p, s) # xs) = reported (p # ps) (s # ss)
        \<and> sorted_wrt (>) (map pairKey ((p, s) # xs))"
      using xs r below ne by simp
    then show ?thesis by blast
  qed
qed

lemma reported_set: "set P = set P' \<Longrightarrow> set S = set S' \<Longrightarrow> reported P S = reported P' S'"
  by (simp add: reported_def nextBelow_def)

lemma sorted_docs_rev:
  "distinct (map doc_id coll) \<Longrightarrow> sorted_wrt (>) (map doc_id (rev (sort_key doc_id coll)))"
proof -
  assume "distinct (map doc_id coll)"
  then have "sorted_wrt (<) (map doc_id (sort_key doc_id coll))"
    by (simp add: strict_sorted_iff distinct_map)
  then show ?thesis by (simp add: rev_map [symmetric] sorted_wrt_rev)
qed

lemma dumpCollectionDiff_exact:
  fixes primaryColl secondaryColl :: "('k::linorder, 'b) document list"
  assumes "distinct (map doc_id primaryColl)" "distinct (map doc_id secondaryColl)"
  shows "missingOnPrimary (dumpCollectionDiff primaryColl secondaryColl) =
           rev (filter (\<lambda>s. doc_id s \<notin> doc_id ` set primaryColl)
                  (sort_key doc_id secondaryColl))"
    and "missingOnSecondary (dumpCollectionDiff primaryColl secondaryColl) =
           rev (filter (\<lambda>p. doc_id p \<notin> doc_id ` set secondaryColl)
                  (sort_key doc_id primaryColl))"
    and "set (mismatching (dumpCollectionDiff primaryColl secondaryColl))
           = reported primaryColl secondaryColl"
    and "sorted_wrt (>) (map pairKey (mismatching (dumpCollectionDiff primaryColl secondaryColl)))"
proof -
  let ?P = "rev (sort_key doc_id primaryColl)" and ?S = "rev (sort_key doc_id secondaryColl)"
  let ?out = "\<lparr>mismatching = [], missingOnPrimary = [], missingOnSecondary = []\<rparr>
                :: ('k, 'b) divergence"
  have P: "sorted_wrt (>) (map doc_id ?P)" and S: "sorted_wrt (>) (map doc_id ?S)"
    using assms by (simp_all add: sorted_docs_rev)
  note missing = threeWayMerge_missing [OF P S, of ?out]
  show "missingOnPrimary (dumpCollectionDiff primaryColl secondaryColl) =
           rev (filter (\<lambda>s. doc_id s \<notin> doc_id ` set primaryColl)
                  (sort_key doc_id secondaryColl))"
    using missing by (simp add: dumpCollectionDiff_threeWayMerge rev_filter)
  show "missingOnSecondary (dumpCollectionDiff primaryColl secondaryColl) =
           rev (filter (\<lambda>p. doc_id p \<notin> doc_id ` set secondaryColl)
                  (sort_key doc_id primaryColl))"
    using missing by (simp add: dumpCollectionDiff_threeWayMerge rev_filter)
  from threeWayMerge_mismatching [OF P S, of ?out] obtain xs where
    xs: "mismatching (threeWayMerge ?P ?S ?out) = mismatching ?out @ xs"
      "set xs = reported ?P ?S" "sorted_wrt (>) (map pairKey xs)"
    by blast
  have "reported ?P ?S = reported primaryColl secondaryColl"
    by (rule reported_set) simp_all
  with xs show "set (mismatching (dumpCollectionDiff primaryColl secondaryColl))
           = reported primaryColl secondaryColl"
    by (simp add: dumpCollectionDiff_threeWayMerge)
  from xs show "sorted_wrt (>) (map pairKey
      (mismatching (dumpCollectionDiff primaryColl secondaryColl)))"
    by (simp add: dumpCollectionDiff_threeWayMerge)
qed

lemma dumpCollectionDiff_extra_on_secondary:
  assumes "distinct (map doc_id primaryColl)" and "distinct (map doc_id secondaryColl)"
    and "set secondaryColl = insert d (set primaryColl)" and "d \<notin> set primaryColl"
  shows "dumpCollectionDiff primaryColl secondaryColl =
           \<lparr>mismatching =
              (case filter (\<lambda>p. doc_id p < doc_id d) (sort_key doc_id primaryColl) of
                 [] \<Rightarrow> []
               | p # ps \<Rightarrow> [(last (p # ps), d)]),
            missingOnPrimary = [d],
            missingOnSecondary = []\<rparr>"
proof -
  let ?P = "sort_key doc_id primaryColl" and ?S = "sort_key doc_id secondaryColl"
  let ?ys = "filter (\<lambda>x. doc_id x < doc_id d) ?P"
  let ?zs = "filter (\<lambda>x. \<not> doc_id x < doc_id d) ?P"
  have P: "?P = ?ys @ ?zs" by (rule sorted_split_at) simp
  have S: "?S = ?ys @ d # ?zs"
    by (rule sorted_with_extra) (use assms in \<open>simp_all add: distinct_map\<close>)
  have "ys \<noteq> [] \<Longrightarrow> ys = filter (\<lambda>x. doc_id x < doc_id d) xs \<Longrightarrow> doc_id (last ys) < doc_id d"
    for ys xs :: "('a, 'b) document list"
    using last_in_set [of ys] by auto
  then have last: "?ys \<noteq> [] \<longrightarrow> doc_id (last ?ys) < doc_id d" by blast
  have "dumpCollectionDiff primaryColl secondaryColl =
          dumpLoop (?ys @ ?zs) (?ys @ d # ?zs) (int (length (?ys @ ?zs)) - 1)
            (int (length (?ys @ d # ?zs)) - 1)
            \<lparr>mismatching = [], missingOnPrimary = [], missingOnSecondary = []\<rparr>"
    unfolding dumpCollectionDiff_def Let_def using P S by metis
  also have "\<dots> = \<lparr>mismatching = (if ?ys = [] then [] else [(last ?ys, d)]),
                    missingOnPrimary = [d], missingOnSecondary = []\<rparr>"
    using dumpLoop_extra_on_secondary [OF last] by simp
  finally show ?thesis by (simp split: list.splits)
qed


lemma dumpLoop_extra_on_primary:
  assumes "ys \<noteq> [] \<longrightarrow> doc_id (last ys) < doc_id d"
  shows "dumpLoop (ys @ d # zs) (ys @ zs) (int (length (ys @ d # zs)) - 1)
           (int (length (ys @ zs)) - 1) out
         = out\<lparr>mismatching := mismatching out @ (if ys = [] then [] else [(d, last ys)]),
               missingOnSecondary := missingOnSecondary out @ [d]\<rparr>"
proof -
  let ?P = "ys @ d # zs" and ?S = "ys @ zs"
  let ?n = "length ys"
  have "dumpLoop ?P ?S (int (Suc ?n + length zs) - 1) (int (?n + length zs) - 1) out
          = dumpLoop ?P ?S (int (Suc ?n) - 1) (int ?n - 1) out"
    by (rule dumpLoop_equal_run) (simp add: nth_append)
  moreover have "dumpLoop ?P ?S (int (Suc ?n) - 1) (int ?n - 1) out
          = dumpLoop ?P ?S (int ?n - 1) (int ?n - 1)
              (out\<lparr>mismatching := mismatching out @ (if ys = [] then [] else [(d, last ys)]),
                    missingOnSecondary := missingOnSecondary out @ [d]\<rparr>)"
  proof (cases "ys = []")
    case True
    then show ?thesis by (subst dumpLoop.simps) simp
  next
    case False
    then have lt: "doc_id (last ys) < doc_id d" using assms by simp
    have s: "?S ! nat (int ?n - 1) = last ys"
      using False by (simp add: nth_append last_conv_nth nat_diff_distrib')
    have p: "?P ! ?n = d" by simp
    show ?thesis
      using False lt
      by (subst dumpLoop.simps) (auto simp: s bsonBinaryEqual_def bsonWoCompare_def)
  qed
  moreover have "dumpLoop ?P ?S (int (0 + ?n) - 1) (int (0 + ?n) - 1) r
                   = dumpLoop ?P ?S (int 0 - 1) (int 0 - 1) r" for r
    by (rule dumpLoop_equal_run) (simp add: nth_append)
  ultimately show ?thesis by (simp add: dumpLoop_done)
qed

lemma dumpCollectionDiff_extra_on_primary:
  assumes "distinct (map doc_id primaryColl)" and "distinct (map doc_id secondaryColl)"
    and "set primaryColl = insert d (set secondaryColl)" and "d \<notin> set secondaryColl"
  shows "dumpCollectionDiff primaryColl secondaryColl =
           \<lparr>mismatching =
              (case filter (\<lambda>s. doc_id s < doc_id d) (sort_key doc_id secondaryColl) of
                 [] \<Rightarrow> []
               | s # ss \<Rightarrow> [(d, last (s # ss))]),
            missingOnPrimary = [],
            missingOnSecondary = [d]\<rparr>"
proof -
  let ?P = "sort_key doc_id primaryColl" and ?S = "sort_key doc_id secondaryColl"
  let ?ys = "filter (\<lambda>x. doc_id x < doc_id d) ?S"
  let ?zs = "filter (\<lambda>x. \<not> doc_id x < doc_id d) ?S"
  have S: "?S = ?ys @ ?zs" by (rule sorted_split_at) simp
  have P: "?P = ?ys @ d # ?zs"
    by (rule sorted_with_extra) (use assms in \<open>simp_all add: distinct_map\<close>)
  have "ys \<noteq> [] \<Longrightarrow> ys = filter (\<lambda>x. doc_id x < doc_id d) xs \<Longrightarrow> doc_id (last ys) < doc_id d"
    for ys xs :: "('a, 'b) document list"
    using last_in_set [of ys] by auto
  then have last: "?ys \<noteq> [] \<longrightarrow> doc_id (last ?ys) < doc_id d" by blast
  have "dumpCollectionDiff primaryColl secondaryColl =
          dumpLoop (?ys @ d # ?zs) (?ys @ ?zs) (int (length (?ys @ d # ?zs)) - 1)
            (int (length (?ys @ ?zs)) - 1)
            \<lparr>mismatching = [], missingOnPrimary = [], missingOnSecondary = []\<rparr>"
    unfolding dumpCollectionDiff_def Let_def using P S by metis
  also have "\<dots> = \<lparr>mismatching = (if ?ys = [] then [] else [(d, last ?ys)]),
                    missingOnPrimary = [], missingOnSecondary = [d]\<rparr>"
    using dumpLoop_extra_on_primary [OF last] by simp
  finally show ?thesis by (simp split: list.splits)
qed

text \<open>
  C6 (amended). The dump is the three-way merge of the two collections walked from
  the tail in which the pair of current documents is reported as mismatching whenever
  the two differ, also when their keys differ. On two collections, each with distinct
  keys, the documents recorded as missing on the primary are exactly the documents of
  the secondary whose key the primary does not have, each once, in descending order of
  the keys, and likewise for the secondary; the pairs reported as mismatching are
  exactly the pairs of differing documents with the same key and, for every document
  whose key the other collection does not have, the pair of it with the other
  collection's document of the next smaller key, if there is one; each pair is reported
  once, in descending order of the larger of its keys. When the secondary holds the
  documents of the primary and one more document \<open>d\<close>, the result has \<open>d\<close> as the only
  document missing on the primary and no document missing on the secondary; \<open>d\<close> is
  reported once as mismatching, against the primary's document of the next smaller
  key, unless no document of the primary has a smaller key. The same holds with the
  two sides exchanged.
\<close>

theorem dumpCollectionDiff_one_extra_document:
  "dumpCollectionDiff primaryColl secondaryColl =
     threeWayMerge (rev (sort_key doc_id primaryColl)) (rev (sort_key doc_id secondaryColl))
       \<lparr>mismatching = [], missingOnPrimary = [], missingOnSecondary = []\<rparr>
   \<and> (distinct (map doc_id primaryColl) \<and> distinct (map doc_id secondaryColl) \<longrightarrow>
        missingOnPrimary (dumpCollectionDiff primaryColl secondaryColl) =
          rev (filter (\<lambda>s. doc_id s \<notin> doc_id ` set primaryColl)
                 (sort_key doc_id secondaryColl))
        \<and> missingOnSecondary (dumpCollectionDiff primaryColl secondaryColl) =
          rev (filter (\<lambda>p. doc_id p \<notin> doc_id ` set secondaryColl)
                 (sort_key doc_id primaryColl))
        \<and> set (mismatching (dumpCollectionDiff primaryColl secondaryColl))
            = reported primaryColl secondaryColl
        \<and> sorted_wrt (>)
            (map pairKey (mismatching (dumpCollectionDiff primaryColl secondaryColl))))
   \<and> (distinct (map doc_id primaryColl) \<and> distinct (map doc_id secondaryColl)
        \<and> set secondaryColl = insert d (set primaryColl) \<and> d \<notin> set primaryColl \<longrightarrow>
      dumpCollectionDiff primaryColl secondaryColl =
        \<lparr>mismatching =
           (case filter (\<lambda>p. doc_id p < doc_id d) (sort_key doc_id primaryColl) of
              [] \<Rightarrow> []
            | p # ps \<Rightarrow> [(last (p # ps), d)]),
         missingOnPrimary = [d],
         missingOnSecondary = []\<rparr>)
   \<and> (distinct (map doc_id primaryColl) \<and> distinct (map doc_id secondaryColl)
        \<and> set primaryColl = insert d (set secondaryColl) \<and> d \<notin> set secondaryColl \<longrightarrow>
      dumpCollectionDiff primaryColl secondaryColl =
        \<lparr>mismatching =
           (case filter (\<lambda>s. doc_id s < doc_id d) (sort_key doc_id secondaryColl) of
              [] \<Rightarrow> []
            | s # ss \<Rightarrow> [(d, last (s # ss))]),
         missingOnPrimary = [],
         missingOnSecondary = [d]\<rparr>)"
  using dumpCollectionDiff_threeWayMerge [of primaryColl secondaryColl]
    dumpCollectionDiff_exact [of primaryColl secondaryColl]
    dumpCollectionDiff_extra_on_secondary [of primaryColl secondaryColl d]
    dumpCollectionDiff_extra_on_primary [of primaryColl secondaryColl d]
  by blast

text \<open>
  One collection holds the documents 1 and 3, the other the documents 2, 1 and 3. With
  the first as the primary, document 2 is missing on the primary and is reported once
  as mismatching, against document 1; with the first as the secondary, document 2 is
  missing on the secondary and is reported once against document 1.
\<close>

theorem dumpCollectionDiff_one_extra_document_witness:
  "dumpCollectionDiff [Document (1::nat) ''a'', Document 3 ''c'']
     [Document 2 ''b'', Document 1 ''a'', Document 3 ''c''] =
     \<lparr>mismatching = [(Document 1 ''a'', Document 2 ''b'')],
      missingOnPrimary = [Document 2 ''b''],
      missingOnSecondary = []\<rparr>
   \<and> dumpCollectionDiff [Document 2 ''b'', Document (1::nat) ''a'', Document 3 ''c'']
       [Document 1 ''a'', Document 3 ''c''] =
     \<lparr>mismatching = [(Document 2 ''b'', Document 1 ''a'')],
      missingOnPrimary = [],
      missingOnSecondary = [Document 2 ''b'']\<rparr>
   \<and> set (mismatching (dumpCollectionDiff [Document (1::nat) ''a'', Document 3 ''c'']
          [Document 2 ''b'', Document 1 ''a'', Document 3 ''c'']))
       = reported [Document (1::nat) ''a'', Document 3 ''c'']
           [Document 2 ''b'', Document 1 ''a'', Document 3 ''c'']"
proof -
  let ?A = "[Document (1::nat) ''a'', Document 3 ''c'']"
  let ?B = "[Document 2 ''b'', Document (1::nat) ''a'', Document 3 ''c'']"
  let ?d = "Document (2::nat) ''b''"
  have pre: "distinct (map doc_id ?A) \<and> distinct (map doc_id ?B)"
    and extra: "set ?B = insert ?d (set ?A) \<and> ?d \<notin> set ?A"
    by simp_all
  note at_AB = dumpCollectionDiff_one_extra_document [of ?A ?B ?d]
  note at_BA = dumpCollectionDiff_one_extra_document [of ?B ?A ?d]
  from pre extra at_AB have "dumpCollectionDiff ?A ?B =
        \<lparr>mismatching =
           (case filter (\<lambda>p. doc_id p < doc_id ?d) (sort_key doc_id ?A) of
              [] \<Rightarrow> []
            | p # ps \<Rightarrow> [(last (p # ps), ?d)]),
         missingOnPrimary = [?d],
         missingOnSecondary = []\<rparr>"
    by blast
  then have AB: "dumpCollectionDiff ?A ?B =
     \<lparr>mismatching = [(Document 1 ''a'', Document 2 ''b'')],
      missingOnPrimary = [Document 2 ''b''],
      missingOnSecondary = []\<rparr>"
    by simp
  from pre extra at_BA have "dumpCollectionDiff ?B ?A =
        \<lparr>mismatching =
           (case filter (\<lambda>s. doc_id s < doc_id ?d) (sort_key doc_id ?A) of
              [] \<Rightarrow> []
            | s # ss \<Rightarrow> [(?d, last (s # ss))]),
         missingOnPrimary = [],
         missingOnSecondary = [?d]\<rparr>"
    by blast
  then have BA: "dumpCollectionDiff ?B ?A =
     \<lparr>mismatching = [(Document 2 ''b'', Document 1 ''a'')],
      missingOnPrimary = [],
      missingOnSecondary = [Document 2 ''b'']\<rparr>"
    by simp
  from pre at_AB have pairs: "set (mismatching (dumpCollectionDiff ?A ?B)) = reported ?A ?B"
    by blast
  from AB BA pairs show ?thesis by (intro conjI)
qed

text \<open>
  C6 as stated fails: the primary holds document 1, the secondary documents 1 and 2.
  The result is not "one entry missing on the primary and nothing else": the pair of
  document 1 and document 2 is reported as mismatching.
\<close>

theorem dumpCollectionDiff_reports_mismatching_pair:
  "dumpCollectionDiff [Document (1::nat) ''a''] [Document 1 ''a'', Document 2 ''b''] =
     \<lparr>mismatching = [(Document 1 ''a'', Document 2 ''b'')],
      missingOnPrimary = [Document 2 ''b''],
      missingOnSecondary = []\<rparr>
   \<and> mismatching (dumpCollectionDiff [Document (1::nat) ''a'']
        [Document 1 ''a'', Document 2 ''b'']) \<noteq> []"
  by (simp add: dumpCollectionDiff_def dumpLoop.simps bsonBinaryEqual_def bsonWoCompare_def)

section \<open>Properties of the hash comparison\<close>

lemma fold_flag:
  "fold (\<lambda>x ok. if bad x then False else ok) xs ok = (ok \<and> (\<forall>x\<in>set xs. \<not> bad x))"
  by (induction xs arbitrary: ok) auto

lemma compareHashes_iff:
  "compareHashes ph sh names success =
     (success \<and> (\<forall>c\<in>set names. map_of (collections ph) c = map_of (collections sh) c))"
  by (simp add: compareHashes_def fold_flag)

lemma compareInfos_iff:
  "compareInfos pinfo sinfo success =
     (success \<and> (\<forall>s\<in>set sinfo. \<forall>p\<in>set pinfo. info_name s = info_name p \<longrightarrow> s = p))"
  unfolding compareInfos_def
  by (induction sinfo arbitrary: success) (auto simp: fold_flag)

lemma compareStats_Inr:
  "compareStats p s names success = Inr b \<Longrightarrow>
     b = (success \<and> (\<forall>c\<in>set names. statsAgree p s c))"
  by (induction names arbitrary: success) (auto simp: statsAgree_def split: if_splits)

lemma length_filter_eq_iff:
  "(length (filter P xs) = length xs) = (\<forall>x\<in>set xs. P x)"
proof (induction xs)
  case Nil
  then show ?case by simp
next
  case (Cons x xs)
  have "length (filter P xs) \<noteq> Suc (length xs)"
    using length_filter_le [of P xs] by arith
  with Cons show ?case by auto
qed

lemma checkSecondary_Inr:
  assumes "checkSecondary p ph pinfo live sh success = Inr b"
  shows "\<exists>s sinfo. find (\<lambda>node. host node = hash_host sh) live = Some s
           \<and> getCollectionInfos s = Inr sinfo
           \<and> b = (success
                \<and> length (collections ph) = length (collections sh)
                \<and> (\<forall>c\<in>set (map fst (collections ph)). \<not> isCapped p c \<longrightarrow>
                      map_of (collections ph) c = map_of (collections sh) c)
                \<and> (\<forall>x\<in>set sinfo. \<forall>y\<in>set pinfo. info_name x = info_name y \<longrightarrow> x = y)
                \<and> (\<forall>c\<in>set (map fst (collections ph)). statsAgree p s c)
                \<and> ((\<forall>c\<in>set (map fst (collections ph)). \<not> isCapped p c) \<longrightarrow> md5 ph = md5 sh))"
proof -
  let ?names = "map fst (collections ph)"
  let ?nc = "filter (\<lambda>c. \<not> isCapped p c) ?names"
  let ?s1 = "if length ?names \<noteq> length (map fst (collections sh)) then False else success"
  from assms have ok: "hash_ok sh"
    by (simp add: checkSecondary_def split: if_splits)
  from assms ok obtain s where s: "find (\<lambda>node. host node = hash_host sh) live = Some s"
    by (simp add: checkSecondary_def split: option.splits)
  from assms ok s obtain sinfo where sinfo: "getCollectionInfos s = Inr sinfo"
    by (simp add: checkSecondary_def Let_def split: sum.splits)
  from assms ok s sinfo obtain b4 where
    b4: "compareStats p s ?names (compareInfos pinfo sinfo (compareHashes ph sh ?nc ?s1)) = Inr b4"
    and b: "b = (if length ?nc = length ?names
                 then (if md5 ph \<noteq> md5 sh then False else b4) else b4)"
    by (simp add: checkSecondary_def Let_def split: sum.splits)
  have b4_eq: "b4 = (compareInfos pinfo sinfo (compareHashes ph sh ?nc ?s1)
                      \<and> (\<forall>c\<in>set ?names. statsAgree p s c))"
    by (rule compareStats_Inr [OF b4])
  have len: "(length ?nc = length ?names) = (\<forall>c\<in>set ?names. \<not> isCapped p c)"
    by (rule length_filter_eq_iff)
  have "b = (success
             \<and> length (collections ph) = length (collections sh)
             \<and> (\<forall>c\<in>set ?names. \<not> isCapped p c \<longrightarrow>
                   map_of (collections ph) c = map_of (collections sh) c)
             \<and> (\<forall>x\<in>set sinfo. \<forall>y\<in>set pinfo. info_name x = info_name y \<longrightarrow> x = y)
             \<and> (\<forall>c\<in>set ?names. statsAgree p s c)
             \<and> ((\<forall>c\<in>set ?names. \<not> isCapped p c) \<longrightarrow> md5 ph = md5 sh))"
    unfolding b b4_eq len compareInfos_iff compareHashes_iff
    by (cases "\<forall>c\<in>set ?names. \<not> isCapped p c") auto
  with s sinfo show ?thesis by blast
qed

lemma checkSecondary_True:
  assumes "checkSecondary p ph pinfo live sh success = Inr True"
  shows "success
         \<and> length (collections ph) = length (collections sh)
         \<and> (\<forall>c\<in>set (map fst (collections ph)). \<not> isCapped p c \<longrightarrow>
               map_of (collections ph) c = map_of (collections sh) c)
         \<and> ((\<forall>c\<in>set (map fst (collections ph)). \<not> isCapped p c) \<longrightarrow> md5 ph = md5 sh)"
  using checkSecondary_Inr [OF assms] by blast

lemma forEachSecondary_True:
  "forEachSecondary p ph pinfo live hashes success = Inr True \<Longrightarrow>
     success \<and> (\<forall>sh\<in>set hashes. checkSecondary p ph pinfo live sh True = Inr True)"
proof (induction hashes arbitrary: success)
  case Nil
  then show ?case by simp
next
  case (Cons sh rest)
  from Cons.prems obtain b where b: "checkSecondary p ph pinfo live sh success = Inr b"
    and rest: "forEachSecondary p ph pinfo live rest b = Inr True"
    by (auto split: sum.splits)
  from Cons.IH [OF rest] have "b"
    and all: "\<forall>x\<in>set rest. checkSecondary p ph pinfo live x True = Inr True"
    by simp_all
  with b checkSecondary_True [of p ph pinfo live sh success] have "success" by simp
  with b \<open>b\<close> all show ?case by simp
qed

lemma forEachDB_True:
  "forEachDB skip blacklist dbs success = Inr True \<Longrightarrow>
     success \<and> (\<forall>db\<in>set dbs. dbName db \<notin> set blacklist \<longrightarrow>
        (\<forall>pinfo. getCollectionInfos (primary db) = Inr pinfo \<longrightarrow>
           (\<exists>ph hashes. getHashes (getPrimary_liveNodes db) = Inr (ph, hashes)
              \<and> forEachSecondary (primary db) ph pinfo (liveSlaves db) hashes True
                  = Inr True)))"
proof (induction dbs arbitrary: success)
  case Nil
  then show ?case by simp
next
  case (Cons db rest)
  show ?case
  proof (cases "dbName db \<in> set blacklist")
    case True
    with Cons.prems have "forEachDB skip blacklist rest success = Inr True" by simp
    from Cons.IH [OF this] True show ?thesis by simp
  next
    case False
    from Cons.prems False obtain ph hashes where
      hashes: "getHashes (getPrimary_liveNodes db) = Inr (ph, hashes)"
      by (cases "getHashes (getPrimary_liveNodes db)") auto
    from Cons.prems False hashes have ok: "hash_ok ph"
      by (simp split: if_splits)
    show ?thesis
    proof (cases "getCollectionInfos (primary db)")
      case (Inl e)
      with Cons.prems False hashes ok have "forEachDB skip blacklist rest success = Inr True"
        by (simp split: if_splits)
      from Cons.IH [OF this] Inl show ?thesis by simp
    next
      case (Inr pinfo)
      with Cons.prems False hashes ok obtain b where
        b: "forEachSecondary (primary db) ph pinfo (liveSlaves db) hashes success = Inr b"
        and rest: "forEachDB skip blacklist rest b = Inr True"
        by (auto split: sum.splits)
      from Cons.IH [OF rest] have "b" and
        all: "\<forall>db\<in>set rest. dbName db \<notin> set blacklist \<longrightarrow>
               (\<forall>pinfo. getCollectionInfos (primary db) = Inr pinfo \<longrightarrow>
                  (\<exists>ph hashes. getHashes (getPrimary_liveNodes db) = Inr (ph, hashes)
                     \<and> forEachSecondary (primary db) ph pinfo (liveSlaves db) hashes True
                         = Inr True))"
        by simp_all
      from b \<open>b\<close> forEachSecondary_True [of "primary db" ph pinfo "liveSlaves db" hashes success]
      have "success" by simp
      with b \<open>b\<close> all Inr hashes show ?thesis by simp
    qed
  qed
qed

lemma map_of_withHash:
  "k \<noteq> c \<Longrightarrow> map_of (map (\<lambda>(k, v). if k = c then (k, h) else (k, v)) xs) k = map_of xs k"
  by (induction xs) auto

text \<open>
  The hash that the secondary reports for a collection that is capped on the primary
  does not enter the outcome.
\<close>

lemma checkSecondary_withHash:
  assumes "isCapped p c"
  shows "checkSecondary p ph pinfo live (withHash c h sh) success
           = checkSecondary p ph pinfo live sh success"
proof -
  have keys: "map fst (collections (withHash c h sh)) = map fst (collections sh)"
    by (auto simp: withHash_def)
  have "compareHashes ph (withHash c h sh) names b = compareHashes ph sh names b"
    if "\<forall>k\<in>set names. \<not> isCapped p k" for names b
  proof -
    have "map_of (collections (withHash c h sh)) k = map_of (collections sh) k"
      if "k \<in> set names" for k
      using that \<open>\<forall>k\<in>set names. \<not> isCapped p k\<close> assms
      by (auto simp: withHash_def intro: map_of_withHash)
    then show ?thesis by (simp add: compareHashes_iff)
  qed
  then have hashes: "compareHashes ph (withHash c h sh)
                (filter (\<lambda>k. \<not> isCapped p k) (map fst (collections ph))) b
           = compareHashes ph sh (filter (\<lambda>k. \<not> isCapped p k) (map fst (collections ph))) b"
    for b
    by simp
  have fields: "hash_ok (withHash c h sh) = hash_ok sh"
    "hash_host (withHash c h sh) = hash_host sh" "md5 (withHash c h sh) = md5 sh"
    by (simp_all add: withHash_def)
  show ?thesis
    unfolding checkSecondary_def Let_def keys hashes fields by (rule refl)
qed

text \<open>
  When some collection is capped on the primary, the hashes that the two members
  report for the whole database do not enter the outcome.
\<close>

lemma checkSecondary_md5_unread:
  assumes "\<exists>k\<in>set (map fst (collections ph)). isCapped p k"
  shows "checkSecondary p (ph\<lparr>md5 := x\<rparr>) pinfo live (sh\<lparr>md5 := y\<rparr>) success
           = checkSecondary p ph pinfo live sh success"
proof -
  have ne: "(length (filter (\<lambda>k. \<not> isCapped p k) (map fst (collections ph)))
          = length (map fst (collections ph))) = False"
    using assms length_filter_eq_iff [of "\<lambda>k. \<not> isCapped p k" "map fst (collections ph)"]
    by blast
  have fields: "collections (ph\<lparr>md5 := x\<rparr>) = collections ph"
    "collections (sh\<lparr>md5 := y\<rparr>) = collections sh"
    "hash_ok (sh\<lparr>md5 := y\<rparr>) = hash_ok sh" "hash_host (sh\<lparr>md5 := y\<rparr>) = hash_host sh"
    by simp_all
  have hashes: "compareHashes (ph\<lparr>md5 := x\<rparr>) (sh\<lparr>md5 := y\<rparr>) names b
                  = compareHashes ph sh names b" for names b
    by (simp add: compareHashes_def)
  show ?thesis
    unfolding checkSecondary_def Let_def fields hashes ne if_False by (rule refl)
qed

text \<open>
  The walk over the databases fails when \<^verbatim>\<open>getPrimary\<close> throws, when the reply of the
  primary to \<^verbatim>\<open>dbhash\<close> is not ok, and, without
  \<^verbatim>\<open>skipValidationOnInvalidViewDefinitions\<close>, when the primary cannot list the collection
  infos.
\<close>

lemma forEachDB_failures:
  "dbName db \<notin> set blacklist \<Longrightarrow> getPrimary_liveNodes db = Inl e \<Longrightarrow>
     forEachDB skip blacklist (db # rest) success = Inl e"
  "dbName db \<notin> set blacklist \<Longrightarrow> getPrimary_liveNodes db = Inr found \<Longrightarrow>
   master found = Some m \<Longrightarrow> \<not> hash_ok (runCommand_dbhash m) \<Longrightarrow>
     forEachDB skip blacklist (db # rest) success = Inl CommandFailed"
  "dbName db \<notin> set blacklist \<Longrightarrow> getPrimary_liveNodes db = Inr found \<Longrightarrow>
   master found = Some m \<Longrightarrow> hash_ok (runCommand_dbhash m) \<Longrightarrow>
   getCollectionInfos (primary db) = Inl e \<Longrightarrow>
     forEachDB False blacklist (db # rest) success = Inl e"
  by (simp_all add: getHashes_def)

text \<open>
  A database that is excluded is passed over, and so is, with
  \<^verbatim>\<open>skipValidationOnInvalidViewDefinitions\<close> set, a database whose collection infos the
  primary cannot list because of an invalid view definition, once the primary has
  answered \<^verbatim>\<open>dbhash\<close>: what the members report for it does not enter the outcome. In
  the example the verification succeeds although the secondary reports no collection
  and another hash for the whole database.
\<close>

lemma forEachDB_blacklisted:
  "dbName db \<in> set blacklist \<Longrightarrow>
     forEachDB skip blacklist (db # rest) success = forEachDB skip blacklist rest success"
  by simp

lemma forEachDB_invalid_views:
  "dbName db \<notin> set blacklist \<Longrightarrow> getPrimary_liveNodes db = Inr found \<Longrightarrow>
   master found = Some m \<Longrightarrow> hash_ok (runCommand_dbhash m) \<Longrightarrow>
   getCollectionInfos (primary db) = Inl InvalidViewDefinition \<Longrightarrow>
     forEachDB True blacklist (db # rest) success = forEachDB True blacklist rest success"
  by (simp add: getHashes_def)

lemma checkDBHashes_invalid_views_skipped:
  "checkDBHashesForReplSet True [] [invalid_views_db] = Inr ()
   \<and> collections (runCommand_dbhash (example_primary False)) \<noteq> []
   \<and> collections (runCommand_dbhash (hd (liveSlaves invalid_views_db))) = []
   \<and> md5 (runCommand_dbhash (example_primary False))
       \<noteq> md5 (runCommand_dbhash (hd (liveSlaves invalid_views_db)))"
  by (simp add: checkDBHashesForReplSet_def invalid_views_db_def example_primary_def
      example_secondary_def example_conn_def getHashes_def liveSlaves_def)

text \<open>
  What an arbiter reports is not compared: the verification of the example with the
  arbiter succeeds.
\<close>

lemma checkDBHashes_arbiter_not_compared:
  "checkDBHashesForReplSet False [] [example_db_with_arbiter] = Inr ()
   \<and> example_arbiter \<in> set (liveSlaves example_db_with_arbiter)
   \<and> arbiterOnly example_arbiter
   \<and> md5 (runCommand_dbhash example_arbiter) \<noteq> md5 (runCommand_dbhash (example_primary False))"
  by (simp add: checkDBHashesForReplSet_def example_db_with_arbiter_def example_arbiter_def
      example_primary_def example_secondary_def example_conn_def example_stats_def
      checkSecondary_def compareHashes_def compareInfos_def getHashes_def liveSlaves_def)

text \<open>
  C7 (amended). In the comparison of the primary with a secondary, the hash of a
  collection that is capped on the primary is excluded; and when some collection is
  capped on the primary, the hashes of the whole database are not compared. When the
  verification succeeds, then for every database that is checked, that is every
  database that is not excluded and whose collection infos the primary lists, and for
  every node of \<^verbatim>\<open>liveNodes.slaves\<close> that is not an arbiter, as the leadership scan of
  \<^verbatim>\<open>getHashes\<close> for this database leaves them, the numbers of hashed collections agree
  with the primary's, the hashes of all collections that are not capped on the primary
  agree, and the hashes of the whole database agree provided that the primary has no
  capped collection in the database. The hashes of the primary are those that
  \<^verbatim>\<open>liveNodes.master\<close> reports after that scan; whether a collection is capped, and the
  collection infos, are asked of the connection \<^verbatim>\<open>primary\<close> that was read from
  \<^verbatim>\<open>liveNodes.master\<close> before the databases were walked.
\<close>

theorem checkDBHashes_capped_excluded_md5_gated:
  "(isCapped p c \<longrightarrow>
      checkSecondary p ph pinfo live (withHash c h sh) success
        = checkSecondary p ph pinfo live sh success)
   \<and> ((\<exists>k\<in>set (map fst (collections ph)). isCapped p k) \<longrightarrow>
        checkSecondary p (ph\<lparr>md5 := x\<rparr>) pinfo live (sh\<lparr>md5 := y\<rparr>) success
          = checkSecondary p ph pinfo live sh success)
   \<and> (checkDBHashesForReplSet skip blacklist dbs = Inr ()
        \<and> db \<in> set dbs \<and> dbName db \<notin> set blacklist \<and> dbName db \<noteq> ''local''
        \<and> getCollectionInfos (primary db) = Inr info
        \<and> getPrimary_liveNodes db = Inr found \<and> master found = Some m
        \<and> node \<in> set (slaves found) \<and> \<not> arbiterOnly node
      \<longrightarrow> length (collections (runCommand_dbhash m))
            = length (collections (runCommand_dbhash node))
        \<and> (\<forall>k\<in>set (map fst (collections (runCommand_dbhash m))).
              \<not> isCapped (primary db) k \<longrightarrow>
              map_of (collections (runCommand_dbhash m)) k
                = map_of (collections (runCommand_dbhash node)) k)
        \<and> ((\<forall>k\<in>set (map fst (collections (runCommand_dbhash m))).
                \<not> isCapped (primary db) k)
              \<longrightarrow> md5 (runCommand_dbhash m) = md5 (runCommand_dbhash node)))"
proof (intro conjI)
  show "isCapped p c \<longrightarrow>
      checkSecondary p ph pinfo live (withHash c h sh) success
        = checkSecondary p ph pinfo live sh success"
    by (simp add: checkSecondary_withHash)
  show "(\<exists>k\<in>set (map fst (collections ph)). isCapped p k) \<longrightarrow>
        checkSecondary p (ph\<lparr>md5 := x\<rparr>) pinfo live (sh\<lparr>md5 := y\<rparr>) success
          = checkSecondary p ph pinfo live sh success"
    using checkSecondary_md5_unread by blast
  show "checkDBHashesForReplSet skip blacklist dbs = Inr ()
        \<and> db \<in> set dbs \<and> dbName db \<notin> set blacklist \<and> dbName db \<noteq> ''local''
        \<and> getCollectionInfos (primary db) = Inr info
        \<and> getPrimary_liveNodes db = Inr found \<and> master found = Some m
        \<and> node \<in> set (slaves found) \<and> \<not> arbiterOnly node
      \<longrightarrow> length (collections (runCommand_dbhash m))
            = length (collections (runCommand_dbhash node))
        \<and> (\<forall>k\<in>set (map fst (collections (runCommand_dbhash m))).
              \<not> isCapped (primary db) k \<longrightarrow>
              map_of (collections (runCommand_dbhash m)) k
                = map_of (collections (runCommand_dbhash node)) k)
        \<and> ((\<forall>k\<in>set (map fst (collections (runCommand_dbhash m))).
                \<not> isCapped (primary db) k)
              \<longrightarrow> md5 (runCommand_dbhash m) = md5 (runCommand_dbhash node))"
  proof
    assume a: "checkDBHashesForReplSet skip blacklist dbs = Inr ()
        \<and> db \<in> set dbs \<and> dbName db \<notin> set blacklist \<and> dbName db \<noteq> ''local''
        \<and> getCollectionInfos (primary db) = Inr info
        \<and> getPrimary_liveNodes db = Inr found \<and> master found = Some m
        \<and> node \<in> set (slaves found) \<and> \<not> arbiterOnly node"
    then have "forEachDB skip (blacklist @ [''local'']) dbs True = Inr True"
      by (auto simp: checkDBHashesForReplSet_def split: sum.splits if_splits)
    from forEachDB_True [OF this]
    have checked: "\<forall>db\<in>set dbs. dbName db \<notin> set (blacklist @ [''local'']) \<longrightarrow>
        (\<forall>pinfo. getCollectionInfos (primary db) = Inr pinfo \<longrightarrow>
           (\<exists>ph hashes. getHashes (getPrimary_liveNodes db) = Inr (ph, hashes)
              \<and> forEachSecondary (primary db) ph pinfo (liveSlaves db) hashes True
                  = Inr True))"
      by (rule conjunct2)
    from a have "db \<in> set dbs" "dbName db \<notin> set (blacklist @ [''local''])"
      "getCollectionInfos (primary db) = Inr info"
      by simp_all
    with checked obtain primaryDBHash hashes where
      h: "getHashes (getPrimary_liveNodes db) = Inr (primaryDBHash, hashes)"
      and all: "forEachSecondary (primary db) primaryDBHash info (liveSlaves db) hashes True
                  = Inr True"
      by blast
    from h a have ph: "primaryDBHash = runCommand_dbhash m"
      and hs: "hashes = map runCommand_dbhash (filter (\<lambda>node. \<not> arbiterOnly node)
                          (slaves found))"
      by (simp_all add: getHashes_def)
    from a hs have "runCommand_dbhash node \<in> set hashes" by simp
    with forEachSecondary_True [OF all]
    have "checkSecondary (primary db) primaryDBHash info (liveSlaves db)
            (runCommand_dbhash node) True = Inr True"
      by blast
    from checkSecondary_True [OF this]
    show "length (collections (runCommand_dbhash m))
            = length (collections (runCommand_dbhash node))
        \<and> (\<forall>k\<in>set (map fst (collections (runCommand_dbhash m))).
              \<not> isCapped (primary db) k \<longrightarrow>
              map_of (collections (runCommand_dbhash m)) k
                = map_of (collections (runCommand_dbhash node)) k)
        \<and> ((\<forall>k\<in>set (map fst (collections (runCommand_dbhash m))).
                \<not> isCapped (primary db) k)
              \<longrightarrow> md5 (runCommand_dbhash m) = md5 (runCommand_dbhash node))"
      unfolding ph by blast
  qed
qed

text \<open>
  C7 as stated fails. The database has the capped collection \<open>log\<close> and the collection
  \<open>users\<close>; the secondary agrees with the primary on the hash of \<open>users\<close>, on the
  collection infos and stats and on the number of collections, but reports another
  hash for the whole database. The verification succeeds.
\<close>

theorem checkDBHashes_md5_not_compared_with_capped:
  "checkDBHashesForReplSet False [] [example_db True ''m2''] = Inr ()
   \<and> md5 (runCommand_dbhash (example_primary True))
       \<noteq> md5 (runCommand_dbhash (example_secondary True ''m2''))
   \<and> map_of (collections (runCommand_dbhash (example_primary True))) ''users''
       = map_of (collections (runCommand_dbhash (example_secondary True ''m2''))) ''users''
   \<and> isCapped (primary (example_db True ''m2'')) ''log''
   \<and> liveSlaves (example_db True ''m2'') = [example_secondary True ''m2'']"
  by (simp add: checkDBHashesForReplSet_def example_db_def example_primary_def
      example_secondary_def example_conn_def example_stats_def checkSecondary_def
      compareHashes_def compareInfos_def getHashes_def liveSlaves_def)

text \<open>
  The same database without a capped collection, the secondary reporting the hash of
  the primary for the whole database: the verification succeeds, and the two hashes
  agree. With the collection \<open>log\<close> capped, neither the hash that the secondary reports
  for it nor the hashes of the whole database enter the comparison.
\<close>

theorem checkDBHashes_capped_excluded_md5_gated_witness:
  "checkDBHashesForReplSet False [] [example_db False ''m1''] = Inr ()
   \<and> md5 (runCommand_dbhash (example_primary False))
       = md5 (runCommand_dbhash (example_secondary False ''m1''))
   \<and> isCapped (example_primary True) ''log''
   \<and> checkSecondary (example_primary True) (runCommand_dbhash (example_primary True)) []
        [example_secondary True ''m2'']
        (withHash ''log'' ''h0'' (runCommand_dbhash (example_secondary True ''m2''))) True
       = checkSecondary (example_primary True) (runCommand_dbhash (example_primary True)) []
           [example_secondary True ''m2''] (runCommand_dbhash (example_secondary True ''m2''))
           True
   \<and> checkSecondary (example_primary True)
        ((runCommand_dbhash (example_primary True))\<lparr>md5 := ''m3''\<rparr>) []
        [example_secondary True ''m2'']
        ((runCommand_dbhash (example_secondary True ''m2''))\<lparr>md5 := ''m4''\<rparr>) True
       = checkSecondary (example_primary True) (runCommand_dbhash (example_primary True)) []
           [example_secondary True ''m2''] (runCommand_dbhash (example_secondary True ''m2''))
           True"
proof -
  let ?db = "example_db False ''m1''"
  let ?found = "\<lparr>master = Some (example_primary False),
                  slaves = [example_secondary False ''m1'']\<rparr>"
  have ok: "checkDBHashesForReplSet False [] [?db] = Inr ()"
    by (simp add: checkDBHashesForReplSet_def example_db_def example_primary_def
      example_secondary_def example_conn_def example_stats_def checkSecondary_def
      compareHashes_def compareInfos_def getHashes_def liveSlaves_def)
  have pre: "?db \<in> set [?db] \<and> dbName ?db \<notin> set [] \<and> dbName ?db \<noteq> ''local''
      \<and> getCollectionInfos (primary ?db)
          = Inr [CollInfo ''log'' ''options'', CollInfo ''users'' ''options'']
      \<and> getPrimary_liveNodes ?db = Inr ?found
      \<and> master ?found = Some (example_primary False)
      \<and> example_secondary False ''m1'' \<in> set (slaves ?found)
      \<and> \<not> arbiterOnly (example_secondary False ''m1'')"
    by (simp add: example_db_def example_primary_def example_secondary_def example_conn_def)
  have plain: "\<forall>k\<in>set (map fst (collections (runCommand_dbhash (example_primary False)))).
                 \<not> isCapped (primary ?db) k"
    by (simp add: example_db_def example_primary_def example_conn_def)
  have capped: "isCapped (example_primary True) ''log''"
    and some: "\<exists>k\<in>set (map fst (collections (runCommand_dbhash (example_primary True)))).
                 isCapped (example_primary True) k"
    by (simp_all add: example_primary_def example_conn_def)
  from ok pre plain
    checkDBHashes_capped_excluded_md5_gated
      [where skip = False and blacklist = "[]" and dbs = "[?db]" and db = ?db
         and info = "[CollInfo ''log'' ''options'', CollInfo ''users'' ''options'']"
         and found = ?found and m = "example_primary False"
         and node = "example_secondary False ''m1''"]
  have "md5 (runCommand_dbhash (example_primary False))
          = md5 (runCommand_dbhash (example_secondary False ''m1''))"
    by blast
  moreover from capped some
    checkDBHashes_capped_excluded_md5_gated
      [where p = "example_primary True" and c = "''log''"
         and ph = "runCommand_dbhash (example_primary True)" and pinfo = "[]"
         and live = "[example_secondary True ''m2'']" and h = "''h0''"
         and sh = "runCommand_dbhash (example_secondary True ''m2'')" and success = True
         and x = "''m3''" and y = "''m4''"]
  have "checkSecondary (example_primary True) (runCommand_dbhash (example_primary True)) []
        [example_secondary True ''m2'']
        (withHash ''log'' ''h0'' (runCommand_dbhash (example_secondary True ''m2''))) True
       = checkSecondary (example_primary True) (runCommand_dbhash (example_primary True)) []
           [example_secondary True ''m2''] (runCommand_dbhash (example_secondary True ''m2''))
           True
   \<and> checkSecondary (example_primary True)
        ((runCommand_dbhash (example_primary True))\<lparr>md5 := ''m3''\<rparr>) []
        [example_secondary True ''m2'']
        ((runCommand_dbhash (example_secondary True ''m2''))\<lparr>md5 := ''m4''\<rparr>) True
       = checkSecondary (example_primary True) (runCommand_dbhash (example_primary True)) []
           [example_secondary True ''m2''] (runCommand_dbhash (example_secondary True ''m2''))
           True"
    by blast
  ultimately show ?thesis using ok capped by blast
qed

section \<open>Properties of the replication waits\<close>

lemma checkSecondaries_True:
  "(checkSecondaries nj k obs members st = (st', Inr True)) =
     (st' = st \<and> list_all (\<lambda>s. sameConfig st s
          \<and> (isArbiter (status s) \<or> synced nj k st s))
          members)"
proof (induction members)
  case Nil
  then show ?case by auto
next
  case (Cons s rest)
  show ?case
  proof (cases "replsetVersion s")
    case (Inl e)
    then show ?thesis by (simp add: sameConfig_def)
  next
    case v: (Inr v)
    show ?thesis
    proof (cases "configVersion st = v")
      case False
      then show ?thesis using v
        by (auto simp: sameConfig_def this_getPrimary_def)
    next
      case True
      show ?thesis
      proof (cases "commandWorked (status s)")
        case (Inl e)
        then show ?thesis using v True by (simp add: isArbiter_def synced_def)
      next
        case res: (Inr res)
        show ?thesis
        proof (cases "myState res = ARBITER")
          case arb: True
          then show ?thesis using v True res Cons.IH
            by (simp add: sameConfig_def isArbiter_def)
        next
          case arb: False
          have same: "sameConfig st s" and notarb: "\<not> isArbiter (status s)"
            using v True res arb by (simp_all add: sameConfig_def isArbiter_def)
          show ?thesis
          proof (cases "getSecondaryTimestamp nj k (status s)")
            case (Inl e)
            then show ?thesis using v True res arb by (simp add: synced_def isArbiter_def)
          next
            case ts: (Inr ts_opt)
            show ?thesis
            proof (cases "masterLatestOpTime st")
              case None
              then show ?thesis using v True res arb ts
                by (auto simp: synced_def isArbiter_def split: option.splits)
            next
              case latest: (Some latest)
              show ?thesis
              proof (cases ts_opt)
                case None
                then show ?thesis using v True res arb ts latest
                  by (simp add: synced_def isArbiter_def)
              next
                case (Some t)
                show ?thesis
                proof (cases "latest = t")
                  case eq: True
                  then show ?thesis using v True res arb ts latest Some Cons.IH same notarb
                    by (simp add: synced_def)
                next
                  case neq: False
                  then have "\<not> synced nj k st s"
                    using res ts latest Some by (simp add: synced_def)
                  then show ?thesis using v True res arb ts latest Some neq notarb
                    by (auto split: sum.splits)
                qed
              qed
            qed
          qed
        qed
      qed
    qed
  qed
qed

lemma pollSecondaries_True:
  "(pollSecondaries nj k obs st = (st', Inr True)) =
     (st' = st \<and> list_all (\<lambda>s. sameConfig st s
          \<and> (isArbiter (status s) \<or> synced nj k st s)) (liveNodes_slaves obs))"
proof -
  have "(pollSecondaries nj k obs st = (st', Inr True)) =
          (checkSecondaries nj k obs (liveNodes_slaves obs) st = (st', Inr True))"
    by (auto simp: pollSecondaries_def split: prod.splits sum.splits)
  then show ?thesis by (simp add: checkSecondaries_True)
qed

lemma soonNoExcept_Inr:
  "soonNoExcept fatal f observations st = Inr st' \<Longrightarrow>
     \<exists>obs\<in>set observations. \<exists>st0. f obs st0 = (st', Inr True)"
proof (induction observations arbitrary: st)
  case Nil
  then show ?case by simp
next
  case (Cons obs later)
  obtain st1 r where f: "f obs st = (st1, r)" by (cases "f obs st")
  show ?case
  proof (cases "r = Inr True")
    case True
    with Cons.prems f show ?thesis by auto
  next
    case False
    with Cons.prems f have "soonNoExcept fatal f later st1 = Inr st'"
      by (cases r) (auto split: bool.splits if_splits)
    from Cons.IH [OF this] show ?thesis by auto
  qed
qed

lemma synced_iff:
  "synced nj k st s =
     (\<exists>res ts. commandWorked (status s) = Inr res
        \<and> getSecondaryTimestamp nj k (status s) = Inr (Some ts)
        \<and> masterLatestOpTime st = Some ts)"
  by (auto simp: synced_def split: sum.splits option.splits)

lemma soonNoExcept_replicate_unchanged:
  "f obs st = (st, Inr False) \<Longrightarrow>
     soonNoExcept fatal f (replicate n obs @ later) st = soonNoExcept fatal f later st"
  by (induction n) simp_all

lemma awaitReplication_Inr:
  assumes "awaitReplication fatal nj k written first retry observations = Inr st'"
  shows "\<exists>obs\<in>set observations.
           list_all (\<lambda>s. sameConfig st' s \<and> (isArbiter (status s) \<or> synced nj k st' s))
             (liveNodes_slaves obs)"
proof -
  from assms obtain st where
    "soonNoExcept fatal (pollSecondaries nj k) observations st = Inr st'"
    by (auto simp: awaitReplication_def split: sum.splits prod.splits)
  from soonNoExcept_Inr [OF this] obtain obs st0 where
    "obs \<in> set observations" "pollSecondaries nj k obs st0 = (st', Inr True)"
    by blast
  then show ?thesis using pollSecondaries_True [of nj k obs st0 st'] by blast
qed

lemma scenario_start:
  "awaitReplication fatal False LAST_APPLIED (Inr (Some (Timestamp 100 2))) scenario_leader
     scenario_leader observations
   = soonNoExcept fatal (pollSecondaries False LAST_APPLIED) observations scenario_target"
  by (simp add: awaitReplication_def resolve_def scenario_leader_def scenario_target_def)

lemma scenario_behind:
  "pollSecondaries False LAST_APPLIED (scenario (Timestamp 100 1)) scenario_target
     = (scenario_target, Inr False)"
  by (simp add: pollSecondaries_def scenario_def scenario_target_def member_status_def
      commandWorked_def ARBITER_def getSecondaryTimestamp_def getLastOpTimeTimestamp_def
      getLastOpTime_def)

lemma scenario_caught_up:
  "pollSecondaries False LAST_APPLIED (scenario (Timestamp 100 2)) scenario_target
     = (scenario_target, Inr True)"
  by (simp add: pollSecondaries_def scenario_def scenario_target_def member_status_def
      commandWorked_def ARBITER_def getSecondaryTimestamp_def getLastOpTimeTimestamp_def
      getLastOpTime_def)

text \<open>
  The nodes of \<^verbatim>\<open>liveNodes.slaves\<close> are the members that answered the last leadership
  scan without claiming to be primary, in the order of the scan. A member whose
  \<^verbatim>\<open>ismaster\<close> command threw is not among them.
\<close>

lemma callIsMaster_liveNodes_slaves:
  "slaves (snd (callIsMaster ismaster nodes)) = filter (\<lambda>n. ismaster n = Inr False) nodes"
  by (simp add: callIsMaster_def fold_visit clearLiveNodes_def split: prod.splits)

text \<open>
  C2 as stated fails: arbiters are not skipped entirely. The only other member is an
  arbiter whose configuration version is behind the target's; the pass fails on it,
  while the same pass over no other member at all succeeds.
\<close>

theorem awaitReplication_arbiter_config_version_checked:
  "isArbiter (status (hd (liveNodes_slaves arbiter_behind)))
   \<and> pollSecondaries False LAST_APPLIED arbiter_behind scenario_target
       = (scenario_target, Inr False)
   \<and> pollSecondaries False LAST_APPLIED (arbiter_behind\<lparr>liveNodes_slaves := []\<rparr>)
       scenario_target = (scenario_target, Inr True)"
  by (simp add: pollSecondaries_def arbiter_behind_def scenario_target_def member_status_def
      commandWorked_def isArbiter_def)

text \<open>
  C2 (amended). A polling pass of \<^verbatim>\<open>awaitReplication\<close> examines the nodes of
  \<^verbatim>\<open>liveNodes.slaves\<close> and no other member: these are the members that answered the
  last leadership scan without claiming to be primary, so neither the primary nor a
  member that did not answer the scan is examined, and a pass over no node succeeds.
  The pass succeeds exactly when every node of \<^verbatim>\<open>liveNodes.slaves\<close> has the
  configuration version of the target and either is an arbiter, whose operation time
  is not read, or has exactly the target timestamp as its operation time of the
  requested kind (the last applied one, or the last durable one, for which the
  applied time is read when the test runs without journaling); the pass leaves the
  target as it is. The wait succeeds only if one single pass found all this, for the
  final target. In the scenario of the spec the wait does not succeed in any number of
  passes that see the second secondary at \<open>(100, 1)\<close>, and succeeds in the first pass
  that sees it at \<open>(100, 2)\<close>.
\<close>

theorem awaitReplication_all_synced_in_one_pass:
  "(pollSecondaries nj k obs st = (st', Inr True)) =
     (st' = st \<and> list_all (\<lambda>s. sameConfig st s
          \<and> (isArbiter (status s) \<or> synced nj k st s)) (liveNodes_slaves obs))
   \<and> (synced nj k st s \<longrightarrow>
        getSecondaryTimestamp nj k (status s) = Inr (masterLatestOpTime st)
        \<and> masterLatestOpTime st \<noteq> None)
   \<and> getSecondaryTimestamp nj LAST_APPLIED (status s) = getLastOpTimeTimestamp (status s)
   \<and> getSecondaryTimestamp nj LAST_DURABLE (status s)
       = getDurableOpTimeTimestamp nj (status s)
   \<and> pollSecondaries nj k (obs\<lparr>liveNodes_slaves := []\<rparr>) st = (st, Inr True)
   \<and> slaves (snd (callIsMaster ismaster nodes)) = filter (\<lambda>n. ismaster n = Inr False) nodes
   \<and> (awaitReplication fatal nj k written first retry observations = Inr st' \<longrightarrow>
        (\<exists>obs\<in>set observations.
           list_all (\<lambda>s. sameConfig st' s \<and> (isArbiter (status s) \<or> synced nj k st' s))
             (liveNodes_slaves obs)))
   \<and> awaitReplication fatal False LAST_APPLIED (Inr (Some (Timestamp 100 2))) scenario_leader
        scenario_leader (replicate n (scenario (Timestamp 100 1))) = Inl TimedOut
   \<and> awaitReplication fatal False LAST_APPLIED (Inr (Some (Timestamp 100 2))) scenario_leader
        scenario_leader
        (replicate n (scenario (Timestamp 100 1)) @ scenario (Timestamp 100 2) # later)
       = Inr scenario_target"
proof (intro conjI)
  show "(pollSecondaries nj k obs st = (st', Inr True)) =
     (st' = st \<and> list_all (\<lambda>s. sameConfig st s
          \<and> (isArbiter (status s) \<or> synced nj k st s)) (liveNodes_slaves obs))"
    by (rule pollSecondaries_True)
  show "synced nj k st s \<longrightarrow>
        getSecondaryTimestamp nj k (status s) = Inr (masterLatestOpTime st)
        \<and> masterLatestOpTime st \<noteq> None"
    by (auto simp: synced_iff)
  show "getSecondaryTimestamp nj LAST_APPLIED (status s) = getLastOpTimeTimestamp (status s)"
    by (simp add: getSecondaryTimestamp_def)
  show "getSecondaryTimestamp nj LAST_DURABLE (status s)
       = getDurableOpTimeTimestamp nj (status s)"
    by (simp add: getSecondaryTimestamp_def)
  show "pollSecondaries nj k (obs\<lparr>liveNodes_slaves := []\<rparr>) st = (st, Inr True)"
    by (simp add: pollSecondaries_def)
  show "slaves (snd (callIsMaster ismaster nodes))
          = filter (\<lambda>n. ismaster n = Inr False) nodes"
    by (rule callIsMaster_liveNodes_slaves)
  show "awaitReplication fatal nj k written first retry observations = Inr st' \<longrightarrow>
        (\<exists>obs\<in>set observations.
           list_all (\<lambda>s. sameConfig st' s \<and> (isArbiter (status s) \<or> synced nj k st' s))
             (liveNodes_slaves obs))"
    using awaitReplication_Inr by blast
  show "awaitReplication fatal False LAST_APPLIED (Inr (Some (Timestamp 100 2)))
        scenario_leader scenario_leader (replicate n (scenario (Timestamp 100 1)))
       = Inl TimedOut"
    using soonNoExcept_replicate_unchanged
      [of "pollSecondaries False LAST_APPLIED" "scenario (Timestamp 100 1)" scenario_target
          fatal n "[]", OF scenario_behind]
    by (simp add: scenario_start)
  show "awaitReplication fatal False LAST_APPLIED (Inr (Some (Timestamp 100 2)))
        scenario_leader scenario_leader
        (replicate n (scenario (Timestamp 100 1)) @ scenario (Timestamp 100 2) # later)
       = Inr scenario_target"
    using soonNoExcept_replicate_unchanged
      [of "pollSecondaries False LAST_APPLIED" "scenario (Timestamp 100 1)" scenario_target
          fatal n "scenario (Timestamp 100 2) # later", OF scenario_behind]
    by (simp add: scenario_start scenario_caught_up)
qed

text \<open>
  The theorem at the scenario: the wait over two passes that see the second secondary
  behind and a third that sees it caught up succeeds, and the third pass found both
  secondaries at the target.
\<close>

theorem awaitReplication_all_synced_in_one_pass_witness:
  "awaitReplication typeErrors False LAST_APPLIED (Inr (Some (Timestamp 100 2)))
     scenario_leader scenario_leader
     [scenario (Timestamp 100 1), scenario (Timestamp 100 1), scenario (Timestamp 100 2)]
    = Inr scenario_target
   \<and> (\<exists>obs\<in>set [scenario (Timestamp 100 1), scenario (Timestamp 100 1),
                   scenario (Timestamp 100 2)].
         list_all (\<lambda>s. sameConfig scenario_target s
            \<and> (isArbiter (status s) \<or> synced False LAST_APPLIED scenario_target s))
           (liveNodes_slaves obs))"
proof -
  have ok: "awaitReplication typeErrors False LAST_APPLIED (Inr (Some (Timestamp 100 2)))
     scenario_leader scenario_leader
     [scenario (Timestamp 100 1), scenario (Timestamp 100 1), scenario (Timestamp 100 2)]
    = Inr scenario_target"
    by (simp only: scenario_start soonNoExcept.simps scenario_behind scenario_caught_up
        prod.case sum.case bool.case)
  with awaitReplication_all_synced_in_one_pass
    [where fatal = typeErrors and nj = False and k = LAST_APPLIED
       and written = "Inr (Some (Timestamp 100 2))"
       and first = scenario_leader and retry = scenario_leader and st' = scenario_target
       and observations = "[scenario (Timestamp 100 1), scenario (Timestamp 100 1),
                            scenario (Timestamp 100 2)]"]
  show ?thesis by blast
qed

lemma checkSecondaries_keeps_config:
  "configVersion (fst (checkSecondaries nj k obs members st)) = configVersion st
   \<and> primaryConn (fst (checkSecondaries nj k obs members st)) = primaryConn st"
  by (induction members)
     (auto simp: this_getPrimary_def split: sum.splits option.splits)

text \<open>
  No pass changes the configuration version or the connection to the primary that
  were read before the wait.
\<close>

lemma pollSecondaries_keeps_config:
  "configVersion (fst (pollSecondaries nj k obs st)) = configVersion st
   \<and> primaryConn (fst (pollSecondaries nj k obs st)) = primaryConn st"
  using checkSecondaries_keeps_config [of nj k obs "liveNodes_slaves obs" st]
  by (auto simp: pollSecondaries_def split: prod.splits sum.splits)

text \<open>
  While some node of \<^verbatim>\<open>liveNodes.slaves\<close> has another configuration version than
  the one read before the wait, the wait cannot succeed: it fails, by running out of
  attempts unless a pass throws a programming error first.
\<close>

lemma soonNoExcept_stale_config:
  "\<forall>obs\<in>set observations. \<exists>s\<in>set (liveNodes_slaves obs). replsetVersion s \<noteq> Inr v \<Longrightarrow>
   configVersion st = v \<Longrightarrow>
   \<exists>e. soonNoExcept fatal (pollSecondaries nj k) observations st = Inl e"
proof (induction observations arbitrary: st)
  case Nil
  then show ?case by simp
next
  case (Cons obs later)
  obtain st1 r where p: "pollSecondaries nj k obs st = (st1, r)"
    by (cases "pollSecondaries nj k obs st")
  have "r \<noteq> Inr True"
  proof
    assume "r = Inr True"
    with p have "list_all (\<lambda>s. sameConfig st s
          \<and> (isArbiter (status s) \<or> synced nj k st s)) (liveNodes_slaves obs)"
      by (simp add: pollSecondaries_True)
    then have "\<forall>s\<in>set (liveNodes_slaves obs). replsetVersion s = Inr v"
      using Cons.prems(2) by (simp add: list_all_iff sameConfig_def)
    with Cons.prems(1) show False by auto
  qed
  moreover have "configVersion st1 = v"
    using pollSecondaries_keeps_config [of nj k obs st] p Cons.prems(2) by simp
  then have "\<exists>e. soonNoExcept fatal (pollSecondaries nj k) later st1 = Inl e"
    using Cons.IH Cons.prems(1) by simp
  ultimately show ?case using p
    by (cases r) (auto split: bool.splits)
qed

text \<open>
  A secondary ahead of the target: the target is read again from the primary and the
  pass answers \<^verbatim>\<open>false\<close>, so that the polling continues.
\<close>

lemma pollSecondaries_secondary_ahead:
  "pollSecondaries False LAST_APPLIED secondary_ahead scenario_target
     = (scenario_target\<lparr>masterLatestOpTime := Some (Timestamp 100 3)\<rparr>, Inr False)"
  by (simp add: pollSecondaries_def secondary_ahead_def scenario_target_def member_status_def
      commandWorked_def ARBITER_def getSecondaryTimestamp_def getLastOpTimeTimestamp_def
      getLastOpTime_def)

text \<open>
  C3 (the code departs from the claim). The target was read at configuration version
  1; the set has been reconfigured since, and the primary and the secondary both have
  version 2 and the same operation time. The claim says that the pass re-resolves the
  leader, the configuration version and the target, so that a later pass can succeed.
  In the code \<^verbatim>\<open>this.getPrimary()\<close> throws; the handler reads the target timestamp
  again, but the configuration version stays 1, and every later pass fails in the same
  way: the wait times out, whichever exceptions the wait takes for programming errors.
\<close>

theorem awaitReplication_config_version_stays_stale:
  "pollSecondaries False LAST_APPLIED reconfigured scenario_target
     = (scenario_target, Inr False)
   \<and> configVersion scenario_target = 1
   \<and> primary_replsetVersion reconfigured () = Inr 2
   \<and> soonNoExcept programmingError (pollSecondaries False LAST_APPLIED)
        [reconfigured, reconfigured, reconfigured] scenario_target = Inl TimedOut"
  by (simp add: pollSecondaries_def reconfigured_def scenario_target_def this_getPrimary_def)

text \<open>
  On operation times whose terms a double holds exactly, the comparison of the code
  is the ordering of the spec.
\<close>

lemma isEarlierOpTime_exact:
  "exactTerm a \<Longrightarrow> exactTerm b \<Longrightarrow> isEarlierOpTime a b = Inr (earlier a b)"
  by (cases a; cases b)
     (auto simp: exactTerm_def isEarlierOpTime_OpTime earlier_def toNumber_exact
        isEarlierTimestamp_def)

lemma committedOnAll_exact:
  assumes "exactTerm t"
  shows "list_all reportsExactTerm nodes \<Longrightarrow>
     (committedOnAll (Some t) nodes = Inr True)
       = list_all (\<lambda>node. isArbiter node \<or> committed t node) nodes
     \<and> (\<forall>e. committedOnAll (Some t) nodes = Inl e \<longrightarrow>
           (\<exists>node\<in>set nodes. commandWorked node = Inl e))"
proof (induction nodes)
  case Nil
  then show ?case by simp
next
  case (Cons node rest)
  then have ih: "(committedOnAll (Some t) rest = Inr True)
       = list_all (\<lambda>node. isArbiter node \<or> committed t node) rest
     \<and> (\<forall>e. committedOnAll (Some t) rest = Inl e \<longrightarrow>
           (\<exists>node\<in>set rest. commandWorked node = Inl e))"
    and exact: "reportsExactTerm node"
    by simp_all
  show ?case
  proof (cases "commandWorked node")
    case (Inl e)
    then show ?thesis
      by (simp add: isArbiter_def committed_def getReadConcernMajorityOpTime_def)
  next
    case res: (Inr res)
    show ?thesis
    proof (cases "myState res = ARBITER")
      case True
      then show ?thesis using res ih by (auto simp: isArbiter_def)
    next
      case False
      then have notarb: "\<not> isArbiter node" using res by (simp add: isArbiter_def)
      obtain rcm where rcm: "getReadConcernMajorityOpTime node = Inr rcm"
        using res
        by (cases "readConcernMajorityOpTime res")
           (simp_all add: getReadConcernMajorityOpTime_def)
      have com: "committed t node = (rcm \<noteq> OpTime (Timestamp 0 0) 0 \<and> \<not> earlier rcm t)"
        using rcm by (simp add: committed_def)
      show ?thesis
      proof (cases "rcm = OpTime (Timestamp 0 0) 0")
        case True
        then show ?thesis using res False rcm com notarb by simp
      next
        case nonzero: False
        have "exactTerm rcm"
          using rcm exact res nonzero
          by (auto simp: getReadConcernMajorityOpTime_def reportsExactTerm_def
                commandWorked_def split: sum.splits option.splits if_splits)
        then have cmp: "isEarlierOpTime rcm t = Inr (earlier rcm t)"
          using assms by (rule isEarlierOpTime_exact)
        show ?thesis
          using res False rcm com notarb nonzero cmp ih by auto
      qed
    qed
  qed
qed

text \<open>
  A wait whose predicate shares no variable with its caller succeeds exactly when
  some attempt finds the predicate true and no attempt before it threw a programming
  error.
\<close>

lemma soonNoExcept_stateless:
  "(soonNoExcept fatal (\<lambda>obs u. ((), p obs)) observations () = Inr ()) =
     (\<exists>pre obs post. observations = pre @ obs # post \<and> p obs = Inr True
        \<and> (\<forall>a\<in>set pre. \<forall>e. p a = Inl e \<longrightarrow> \<not> fatal e))"
proof (induction observations)
  case Nil
  then show ?case by simp
next
  case (Cons obs later)
  let ?ok = "\<lambda>observations. \<exists>pre obs post. observations = pre @ obs # post
      \<and> p obs = Inr True \<and> (\<forall>a\<in>set pre. \<forall>e. p a = Inl e \<longrightarrow> \<not> fatal e)"
  have first: "?ok (obs # later)" if "p obs = Inr True"
  proof -
    have "obs # later = [] @ obs # later \<and> p obs = Inr True
        \<and> (\<forall>a\<in>set []. \<forall>e. p a = Inl e \<longrightarrow> \<not> fatal e)"
      using that by simp
    then show ?thesis by blast
  qed
  have later: "?ok (obs # later) = ?ok later"
    if "p obs \<noteq> Inr True" "\<forall>e. p obs = Inl e \<longrightarrow> \<not> fatal e"
  proof
    assume "?ok (obs # later)"
    then obtain pre x post where x: "obs # later = pre @ x # post" "p x = Inr True"
      "\<forall>a\<in>set pre. \<forall>e. p a = Inl e \<longrightarrow> \<not> fatal e"
      by blast
    with that(1) obtain pre' where "pre = obs # pre'" by (cases pre) auto
    with x have "later = pre' @ x # post \<and> p x = Inr True
        \<and> (\<forall>a\<in>set pre'. \<forall>e. p a = Inl e \<longrightarrow> \<not> fatal e)"
      by simp
    then show "?ok later" by blast
  next
    assume "?ok later"
    then obtain pre x post where x: "later = pre @ x # post" "p x = Inr True"
      "\<forall>a\<in>set pre. \<forall>e. p a = Inl e \<longrightarrow> \<not> fatal e"
      by blast
    with that(2) have "obs # later = (obs # pre) @ x # post \<and> p x = Inr True
        \<and> (\<forall>a\<in>set (obs # pre). \<forall>e. p a = Inl e \<longrightarrow> \<not> fatal e)"
      by simp
    then show "?ok (obs # later)" by blast
  qed
  have never: "\<not> ?ok (obs # later)" if "p obs = Inl e" "fatal e" for e
  proof
    assume "?ok (obs # later)"
    then obtain pre x post where x: "obs # later = pre @ x # post" "p x = Inr True"
      "\<forall>a\<in>set pre. \<forall>e. p a = Inl e \<longrightarrow> \<not> fatal e"
      by blast
    with that(1) obtain pre' where "pre = obs # pre'" by (cases pre) auto
    with x(3) that show False by simp
  qed
  show ?case
  proof (cases "p obs")
    case (Inl e)
    show ?thesis
    proof (cases "fatal e")
      case True
      with Inl never [of e] show ?thesis by simp
    next
      case False
      with Inl have "?ok (obs # later) = ?ok later" by (intro later) simp_all
      with Inl False Cons.IH show ?thesis by simp
    qed
  next
    case (Inr b)
    show ?thesis
    proof (cases b)
      case True
      with Inr first show ?thesis by simp
    next
      case False
      with Inr have "?ok (obs # later) = ?ok later" by (intro later) simp_all
      with Inr False Cons.IH show ?thesis by simp
    qed
  qed
qed

lemma soonNoExcept_replicate_retried:
  "f obs st = (st, Inl e) \<Longrightarrow> \<not> fatal e \<Longrightarrow>
     soonNoExcept fatal f (replicate n obs @ later) st = soonNoExcept fatal f later st"
  by (induction n) simp_all

text \<open>
  Operation times without a term are outside the statement below. Under the legacy
  protocol the target is a bare timestamp, and with every member exactly at the target
  each pass throws a TypeError in the comparison, which reads the field \<^verbatim>\<open>ts\<close> of the
  target: the wait fails with it when a TypeError is a programming error, and runs out
  of attempts when the wait retries after every exception. And a member whose majority-committed operation time
  \<open>{term 200, ts (1, 0)}\<close> is earlier than the bare target \<open>(100, 2)\<close> by the ordering of
  the spec passes, because its term is compared with the seconds of the target.
\<close>

lemma committedOnAll_bare_target:
  "committedOnAll (Some (Bare (Timestamp 100 2)))
     [Inr ((member_status 2 (Timestamp 1 0))
             \<lparr>readConcernMajorityOpTime := Some (OpTime (Timestamp 1 0) 200)\<rparr>)] = Inr True
   \<and> earlier (OpTime (Timestamp 1 0) 200) (Bare (Timestamp 100 2))"
  by (simp add: member_status_def commandWorked_def ARBITER_def
      getReadConcernMajorityOpTime_def isEarlierOpTime_def friendlyEqual_def earlier_def
      toNumber_exact)

text \<open>
  Terms beyond \<open>2^53\<close> are outside the statement as well: a member whose
  majority-committed operation time has the term \<open>2^53\<close> passes for a target of the
  term \<open>2^53 + 1\<close>, because the two terms are the same double.
\<close>

lemma committedOnAll_term_beyond_double:
  "committedOnAll (Some (OpTime (Timestamp 1 0) 9007199254740993))
     [Inr ((member_status 2 (Timestamp 1 0))
             \<lparr>readConcernMajorityOpTime := Some (OpTime (Timestamp 1 0) 9007199254740992)\<rparr>)]
     = Inr True
   \<and> earlier (OpTime (Timestamp 1 0) 9007199254740992)
         (OpTime (Timestamp 1 0) 9007199254740993)"
  by (simp add: member_status_def commandWorked_def ARBITER_def
      getReadConcernMajorityOpTime_def isEarlierOpTime_OpTime earlier_def
      toNumber_exact toNumber_above)

lemma awaitLastOpCommitted_legacy_protocol:
  "committedOnAll (Some (Bare (Timestamp 100 2))) [legacy_member, legacy_member]
     = Inl TypeError
   \<and> awaitLastOpCommitted typeErrors (Inr ()) (\<lambda>m. legacy_member)
       ([legacy_member, legacy_member] # later) = Inl TypeError
   \<and> awaitLastOpCommitted (\<lambda>e. False) (Inr ()) (\<lambda>m. legacy_member)
       (replicate n [legacy_member, legacy_member]) = Inl TimedOut"
proof -
  have pass: "committedOnAll (Some (Bare (Timestamp 100 2))) [legacy_member, legacy_member]
     = Inl TypeError"
    by (simp add: legacy_member_def commandWorked_def ARBITER_def
        getReadConcernMajorityOpTime_def isEarlierOpTime_def friendlyEqual_def)
  have target: "getLastOpTime legacy_member = Inr (Some (Bare (Timestamp 100 2)))"
    by (simp add: legacy_member_def getLastOpTime_def commandWorked_def)
  have "soonNoExcept (\<lambda>e. False)
          (\<lambda>nodes u. (u, committedOnAll (Some (Bare (Timestamp 100 2))) nodes))
          (replicate n [legacy_member, legacy_member] @ []) () = Inl TimedOut"
    by (subst soonNoExcept_replicate_retried [where e = TypeError])
       (simp_all add: pass del: committedOnAll.simps)
  then show ?thesis
    using pass target
    by (simp add: awaitLastOpCommitted_def typeErrors_def del: committedOnAll.simps)
qed

text \<open>
  C4 as stated fails: the target is not read again when the leader changes. The wait
  starts with node 0 as the primary, at \<open>{term 5, ts (100, 2)}\<close>; in the polling pass
  node 1 is the primary, at \<open>{term 6, ts (200, 1)}\<close>. The wait succeeds and returns the
  operation time of the former primary.
\<close>

theorem awaitLastOpCommitted_target_not_reread:
  "awaitLastOpCommitted typeErrors (Inr 0) before_failover [after_failover]
     = Inr (Some (OpTime (Timestamp 100 2) 5))
   \<and> map (\<lambda>node. case node of Inl e \<Rightarrow> 0 | Inr res \<Rightarrow> myState res) after_failover
       = [2, PRIMARY]
   \<and> getLastOpTime (after_failover ! 1) = Inr (Some (OpTime (Timestamp 200 1) 6))"
  by (simp add: awaitLastOpCommitted_def before_failover_def after_failover_def
      member_status_def getLastOpTime_def commandWorked_def getReadConcernMajorityOpTime_def
      ARBITER_def PRIMARY_def isEarlierOpTime_OpTime isEarlierTimestamp_def toNumber_exact)

text \<open>
  C4 (amended). \<^verbatim>\<open>awaitLastOpCommitted\<close> reads the latest operation time of the current
  primary once, before it polls, and returns exactly that value when it succeeds; the
  target is not read again during the wait. Once the primary is found and its
  operation time read, the wait succeeds if and only if some polling pass answers true
  and no pass before it threw a programming error. When the target and the
  majority-committed operation times that the members report carry a term of at most
  \<open>2^53\<close> in magnitude, a pass answers true exactly when every member either is an
  arbiter or has a majority-committed operation time that is set (not the zero
  operation time) and no earlier than the target by the ordering of the spec; and such
  a pass throws only what reading the status of a member throws (the command, or the
  assertion that it worked).
\<close>

theorem awaitLastOpCommitted_returns_initial_target:
  "((awaitLastOpCommitted fatal primary_found status_of observations = Inr target) =
      (\<exists>m. primary_found = Inr m \<and> getLastOpTime (status_of m) = Inr target
         \<and> (\<exists>pre nodes post. observations = pre @ nodes # post
               \<and> committedOnAll target nodes = Inr True
               \<and> (\<forall>pass\<in>set pre. \<forall>e. committedOnAll target pass = Inl e \<longrightarrow> \<not> fatal e))))
   \<and> (exactTerm t \<and> list_all reportsExactTerm members \<longrightarrow>
        (committedOnAll (Some t) members = Inr True)
          = list_all (\<lambda>node. isArbiter node \<or> committed t node) members
        \<and> (\<forall>e. committedOnAll (Some t) members = Inl e \<longrightarrow>
              (\<exists>node\<in>set members. commandWorked node = Inl e)))"
proof (rule conjI)
  show "(awaitLastOpCommitted fatal primary_found status_of observations = Inr target) =
      (\<exists>m. primary_found = Inr m \<and> getLastOpTime (status_of m) = Inr target
         \<and> (\<exists>pre nodes post. observations = pre @ nodes # post
               \<and> committedOnAll target nodes = Inr True
               \<and> (\<forall>pass\<in>set pre. \<forall>e. committedOnAll target pass = Inl e \<longrightarrow> \<not> fatal e)))"
  proof (cases primary_found)
    case (Inl e)
    then show ?thesis by (simp add: awaitLastOpCommitted_def)
  next
    case m: (Inr m)
    show ?thesis
    proof (cases "getLastOpTime (status_of m)")
      case (Inl e)
      then show ?thesis using m by (simp add: awaitLastOpCommitted_def)
    next
      case (Inr ot)
      have "(awaitLastOpCommitted fatal primary_found status_of observations = Inr target) =
              (ot = target \<and> soonNoExcept fatal (\<lambda>nodes u. ((), committedOnAll ot nodes))
                  observations () = Inr ())"
        using m Inr by (auto simp: awaitLastOpCommitted_def split: sum.splits)
      then show ?thesis
        using m Inr soonNoExcept_stateless [of fatal "committedOnAll ot" observations]
        by auto
    qed
  qed
  show "exactTerm t \<and> list_all reportsExactTerm members \<longrightarrow>
        (committedOnAll (Some t) members = Inr True)
          = list_all (\<lambda>node. isArbiter node \<or> committed t node) members
        \<and> (\<forall>e. committedOnAll (Some t) members = Inl e \<longrightarrow>
              (\<exists>node\<in>set members. commandWorked node = Inl e))"
    using committedOnAll_exact [of t members] by blast
qed

text \<open>
  The theorem at the change of leader above: the wait returns the target it read at
  the start, and the pass found both members no earlier than that target.
\<close>

theorem awaitLastOpCommitted_returns_initial_target_witness:
  "awaitLastOpCommitted typeErrors (Inr 0) before_failover [after_failover]
     = Inr (Some (OpTime (Timestamp 100 2) 5))
   \<and> getLastOpTime (before_failover 0) = Inr (Some (OpTime (Timestamp 100 2) 5))
   \<and> exactTerm (OpTime (Timestamp 100 2) 5)
   \<and> list_all reportsExactTerm after_failover
   \<and> list_all (\<lambda>node. isArbiter node \<or> committed (OpTime (Timestamp 100 2) 5) node)
       after_failover"
proof -
  have ok: "awaitLastOpCommitted typeErrors (Inr 0) before_failover [after_failover]
     = Inr (Some (OpTime (Timestamp 100 2) 5))"
    by (simp add: awaitLastOpCommitted_def before_failover_def after_failover_def
      member_status_def getLastOpTime_def commandWorked_def getReadConcernMajorityOpTime_def
      ARBITER_def PRIMARY_def isEarlierOpTime_OpTime isEarlierTimestamp_def toNumber_exact)
  have exact: "exactTerm (OpTime (Timestamp 100 2) 5) \<and> list_all reportsExactTerm after_failover"
    by (simp add: exactTerm_def reportsExactTerm_def after_failover_def member_status_def)
  have pass: "committedOnAll (Some (OpTime (Timestamp 100 2) 5)) after_failover = Inr True"
    by (simp add: after_failover_def member_status_def commandWorked_def
      getReadConcernMajorityOpTime_def ARBITER_def PRIMARY_def isEarlierOpTime_OpTime
      isEarlierTimestamp_def toNumber_exact)
  from ok exact pass show ?thesis
    using awaitLastOpCommitted_returns_initial_target
      [of typeErrors "Inr 0" before_failover "[after_failover]"
          "Some (OpTime (Timestamp 100 2) 5)" "OpTime (Timestamp 100 2) 5" after_failover]
    by auto
qed

end
